theory Spec2Isabelle
  imports Complex_Main "HOL-Library.Multiset" "HOL-Library.Product_Lexorder"
begin

section \<open>Market analytics engine of nofx (package market)\<close>

text \<open>
  Numbers. Go's \<open>float64\<close> values are modelled as \<open>real\<close> numbers and the operations
  \<open>+ - * /\<close> on them as exact arithmetic; comparisons are the comparisons of the reals, and
  the decimal literals of the source (0.002, 0.001, 0.5, 0.999, the weights) are the decimal
  fractions. Where a statement is about the exact value a computation returns (the EMA of a
  constant series), the computation is modelled a second time with every operation rounded
  as binary64 rounds it. Go's \<open>int\<close> is modelled as \<open>int\<close> or, for lengths, indices and
  periods, as \<open>nat\<close> (no value in the program comes near 64 bits). The indicator periods are
  positive literals at every call site (3, 7, 12, 14, 20, 26, 50); a period of 0 divides
  zero by zero in the source, which has no counterpart in the reals, so statements about
  values obtained by a division by the period carry the hypothesis \<open>0 < period\<close>.
  A nil slice and an empty slice are both the empty list.
\<close>

subsection \<open>Candles\<close>

record Kline =
  OpenTime :: int
  Open :: real
  High :: real
  Low :: real
  Close :: real
  Volume :: real
  CloseTime :: int

subsection \<open>Indicator engine\<close>

text \<open>\<open>calculateEMA\<close>: simple average of the first \<open>period\<close> closes, then the recursive
  update over the remaining candles.\<close>

definition ema_seed :: "Kline list \<Rightarrow> nat \<Rightarrow> real" where
  "ema_seed klines period =
     foldl (\<lambda>sum k. sum + Close k) 0 (take period klines) / real period"

definition ema_step :: "real \<Rightarrow> real \<Rightarrow> Kline \<Rightarrow> real" where
  "ema_step multiplier ema k = (Close k - ema) * multiplier + ema"

definition calculateEMA :: "Kline list \<Rightarrow> nat \<Rightarrow> real" where
  "calculateEMA klines period =
     (if length klines < period then 0
      else foldl (ema_step (2 / real (period + 1))) (ema_seed klines period)
             (drop period klines))"

definition calculateMACD :: "Kline list \<Rightarrow> real" where
  "calculateMACD klines =
     (if length klines < 26 then 0
      else calculateEMA klines 12 - calculateEMA klines 26)"

text \<open>\<open>closeChanges klines\<close> lists \<open>klines[i].Close - klines[i-1].Close\<close> for
  \<open>i = 1 .. len-1\<close>, the quantity both loops of \<open>calculateRSI\<close> read.\<close>

definition closeChanges :: "Kline list \<Rightarrow> real list" where
  "closeChanges klines =
     map (\<lambda>i. Close (klines ! i) - Close (klines ! (i - 1))) [1..<length klines]"

definition rsi_sum_step :: "real \<times> real \<Rightarrow> real \<Rightarrow> real \<times> real" where
  "rsi_sum_step gl change =
     (if change > 0 then (fst gl + change, snd gl) else (fst gl, snd gl + (- change)))"

definition rsi_wilder_step :: "nat \<Rightarrow> real \<times> real \<Rightarrow> real \<Rightarrow> real \<times> real" where
  "rsi_wilder_step period av change =
     (if change > 0
      then ((fst av * (real period - 1) + change) / real period,
            (snd av * (real period - 1)) / real period)
      else ((fst av * (real period - 1)) / real period,
            (snd av * (real period - 1) + (- change)) / real period))"

text \<open>The pair (avgGain, avgLoss) as it stands after both loops.\<close>

definition rsi_averages :: "Kline list \<Rightarrow> nat \<Rightarrow> real \<times> real" where
  "rsi_averages klines period =
     (let totals = foldl rsi_sum_step (0, 0) (take period (closeChanges klines));
          avgGain = fst totals / real period;
          avgLoss = snd totals / real period
      in foldl (rsi_wilder_step period) (avgGain, avgLoss)
           (drop period (closeChanges klines)))"

definition calculateRSI :: "Kline list \<Rightarrow> nat \<Rightarrow> real" where
  "calculateRSI klines period =
     (if length klines \<le> period then 0
      else let avgGain = fst (rsi_averages klines period);
               avgLoss = snd (rsi_averages klines period)
           in if avgLoss = 0 then 100
              else let rs = avgGain / avgLoss in 100 - (100 / (1 + rs)))"

text \<open>\<open>trueRanges klines\<close> lists \<open>trs[i]\<close> for \<open>i = 1 .. len-1\<close> (\<open>trs[0]\<close> is never
  read).\<close>

definition trueRange :: "Kline \<Rightarrow> Kline \<Rightarrow> real" where
  "trueRange prev k =
     (let tr1 = High k - Low k;
          tr2 = \<bar>High k - Close prev\<bar>;
          tr3 = \<bar>Low k - Close prev\<bar>
      in max tr1 (max tr2 tr3))"

definition trueRanges :: "Kline list \<Rightarrow> real list" where
  "trueRanges klines =
     map (\<lambda>i. trueRange (klines ! (i - 1)) (klines ! i)) [1..<length klines]"

definition calculateATR :: "Kline list \<Rightarrow> nat \<Rightarrow> real" where
  "calculateATR klines period =
     (if length klines \<le> period then 0
      else let sum = foldl (\<lambda>s tr. s + tr) 0 (take period (trueRanges klines));
               atr = sum / real period
           in foldl (\<lambda>atr tr. (atr * (real period - 1) + tr) / real period) atr
                (drop period (trueRanges klines)))"

definition flatKline :: "real \<Rightarrow> Kline" where
  "flatKline c = \<lparr>OpenTime = 0, Open = c, High = c, Low = c, Close = c, Volume = 0,
                  CloseTime = 0\<rparr>"

subsection \<open>Support and resistance: data\<close>

record levelPoint =
  Price :: real
  Index :: nat

record levelStats =
  touches :: int
  weight :: real

record SupportResistanceLevel =
  Price :: real
  Strength :: int
  Distance :: real
  Score :: real
  IsSupport :: bool

record weightedLevelSet =
  levels :: "SupportResistanceLevel list"
  weight :: real

record SupportResistanceTimeframe =
  Supports :: "SupportResistanceLevel list"
  Resistances :: "SupportResistanceLevel list"

text \<open>\<open>SupportResistanceConfluence\<close> has the two fields of
  \<open>SupportResistanceTimeframe\<close> and is modelled by the same record; the pointer
  \<open>Confluence\<close> is an option (\<open>None\<close> for nil).\<close>

record SupportResistanceSummary =
  Timeframes :: "string \<rightharpoonup> SupportResistanceTimeframe"
  Confluence :: "SupportResistanceTimeframe option"

subsection \<open>Sorting\<close>

text \<open>\<open>sort.SliceStable\<close> with a comparison \<open>lt\<close> (the source's \<open>less\<close>): the stable sort, written as the
  insertion sort that keeps equal elements in their input order. \<open>sort.Slice\<close> promises
  no order among elements that compare equal; it is modelled by the same function, and
  the statements below about \<open>mergeNearbyLevels\<close> that depend on the order of the sorted
  list are stated for lists without equal prices or do not depend on that order.\<close>

fun insertBy :: "('a \<Rightarrow> 'a \<Rightarrow> bool) \<Rightarrow> 'a \<Rightarrow> 'a list \<Rightarrow> 'a list" where
  "insertBy lt x [] = [x]"
| "insertBy lt x (y # ys) = (if lt y x then y # insertBy lt x ys else x # y # ys)"

definition sortSliceStable :: "('a \<Rightarrow> 'a \<Rightarrow> bool) \<Rightarrow> 'a list \<Rightarrow> 'a list" where
  "sortSliceStable lt xs = foldr (insertBy lt) xs []"

subsection \<open>Extremum detection\<close>

text \<open>The scan index \<open>i\<close> runs over \<open>window \<le> i < len - window\<close> with \<open>window = 3\<close>; the
  inner scan reads \<open>j = i-3 .. i+3\<close>, \<open>j \<noteq> i\<close>. In the duplicate test the source divides
  by \<open>currentLow\<close>; for \<open>currentLow = 0\<close> the quotient is +Inf or NaN in the source and
  the comparison \<open>< 0.001\<close> is false, which the model writes as the conjunct
  \<open>cur \<noteq> 0\<close>.\<close>

definition isLocalMin :: "Kline list \<Rightarrow> nat \<Rightarrow> bool" where
  "isLocalMin klines i =
     list_all (\<lambda>j. j = i \<or> \<not> Low (klines ! j) < Low (klines ! i)) [i - 3 ..< i + 4]"

definition isLocalMax :: "Kline list \<Rightarrow> nat \<Rightarrow> bool" where
  "isLocalMax klines i =
     list_all (\<lambda>j. j = i \<or> \<not> High (klines ! j) > High (klines ! i)) [i - 3 ..< i + 4]"

definition isDuplicate :: "real \<Rightarrow> levelPoint list \<Rightarrow> bool" where
  "isDuplicate cur found =
     list_ex (\<lambda>existing. cur \<noteq> 0 \<and> \<bar>levelPoint.Price existing - cur\<bar> / cur < 0.001) found"

definition minima_step :: "Kline list \<Rightarrow> levelPoint list \<Rightarrow> nat \<Rightarrow> levelPoint list" where
  "minima_step klines minima i =
     (let currentLow = Low (klines ! i)
      in if isLocalMin klines i \<and> \<not> isDuplicate currentLow minima
         then minima @ [\<lparr>levelPoint.Price = currentLow, Index = i\<rparr>]
         else minima)"

definition findLocalMinima :: "Kline list \<Rightarrow> levelPoint list" where
  "findLocalMinima klines =
     (if length klines < 3 then []
      else foldl (minima_step klines) [] [3 ..< length klines - 3])"

definition maxima_step :: "Kline list \<Rightarrow> levelPoint list \<Rightarrow> nat \<Rightarrow> levelPoint list" where
  "maxima_step klines maxima i =
     (let currentHigh = High (klines ! i)
      in if isLocalMax klines i \<and> \<not> isDuplicate currentHigh maxima
         then maxima @ [\<lparr>levelPoint.Price = currentHigh, Index = i\<rparr>]
         else maxima)"

definition findLocalMaxima :: "Kline list \<Rightarrow> levelPoint list" where
  "findLocalMaxima klines =
     (if length klines < 3 then []
      else foldl (maxima_step klines) [] [3 ..< length klines - 3])"

text \<open>\<open>calcRecencyWeight\<close> (\<open>n\<close> is the source's \<open>total\<close>): the index is a slice index, never negative, so the clamp
  \<open>index < 0\<close> of the source has no case here.\<close>

definition calcRecencyWeight :: "nat \<Rightarrow> nat \<Rightarrow> real" where
  "calcRecencyWeight n index =
     (if n \<le> 1 then 1
      else let index' = (if index \<ge> n then n - 1 else index);
               normalized = real index' / real (n - 1)
           in 0.5 + 0.5 * normalized)"

subsection \<open>Merging, distances, ranking\<close>

definition mergeInto :: "SupportResistanceLevel \<Rightarrow> SupportResistanceLevel \<Rightarrow> SupportResistanceLevel" where
  "mergeInto current l =
     (let totalScore0 = Score current + Score l;
          totalScore =
            (if totalScore0 \<le> 0
             then (let t = real_of_int (Strength current + Strength l)
                   in if t = 0 then 1 else t)
             else totalScore0)
      in current\<lparr>Price := (Price current * Score current + Price l * Score l) / totalScore,
                 Strength := Strength current + Strength l,
                 Score := Score current + Score l\<rparr>)"

definition withinMergeTolerance :: "real \<Rightarrow> SupportResistanceLevel \<Rightarrow> SupportResistanceLevel \<Rightarrow> bool" where
  "withinMergeTolerance tolerance current l =
     (let denom0 = (Price current + Price l) / 2;
          denom = (if denom0 = 0 then 1 else denom0)
      in \<bar>Price l - Price current\<bar> / denom \<le> tolerance)"

fun mergeRun :: "real \<Rightarrow> SupportResistanceLevel \<Rightarrow> SupportResistanceLevel list \<Rightarrow>
    SupportResistanceLevel list" where
  "mergeRun tolerance current [] = [current]"
| "mergeRun tolerance current (l # ls) =
     (if withinMergeTolerance tolerance current l
      then mergeRun tolerance (mergeInto current l) ls
      else current # mergeRun tolerance (l\<lparr>Distance := 0\<rparr>) ls)"

definition mergeNearbyLevels :: "SupportResistanceLevel list \<Rightarrow> real \<Rightarrow> SupportResistanceLevel list" where
  "mergeNearbyLevels lvls tolerance =
     (case sortSliceStable (\<lambda>a b. Price a < Price b) lvls of
        [] \<Rightarrow> []
      | l # ls \<Rightarrow> mergeRun tolerance (l\<lparr>Distance := 0\<rparr>) ls)"

definition updateLevelDistances :: "SupportResistanceLevel list \<Rightarrow> real \<Rightarrow> bool \<Rightarrow>
    SupportResistanceLevel list" where
  "updateLevelDistances lvls currentPrice isSupport =
     (if currentPrice \<le> 0 then lvls
      else map (\<lambda>l. if isSupport
                     then l\<lparr>Distance := \<bar>(currentPrice - Price l) / currentPrice * 100\<bar>\<rparr>
                     else l\<lparr>Distance := \<bar>(Price l - currentPrice) / currentPrice * 100\<bar>\<rparr>) lvls)"

definition rankLess :: "bool \<Rightarrow> SupportResistanceLevel \<Rightarrow> SupportResistanceLevel \<Rightarrow> bool" where
  "rankLess isSupport a b =
     (if Score a = Score b
      then (if Strength a = Strength b
            then (if Distance a = Distance b
                  then (if isSupport then Price a > Price b else Price a < Price b)
                  else Distance a < Distance b)
            else Strength a > Strength b)
      else Score a > Score b)"

definition displayLess :: "bool \<Rightarrow> SupportResistanceLevel \<Rightarrow> SupportResistanceLevel \<Rightarrow> bool" where
  "displayLess isSupport a b =
     (if Distance a = Distance b
      then (if isSupport then Price a > Price b else Price a < Price b)
      else Distance a < Distance b)"

definition sortAndFilterLevels :: "SupportResistanceLevel list \<Rightarrow> bool \<Rightarrow> SupportResistanceLevel list" where
  "sortAndFilterLevels lvls isSupport =
     (if length lvls = 0 then []
      else let ranked = sortSliceStable (rankLess isSupport) lvls;
               kept = (if length ranked > 5 then take 5 ranked else ranked)
           in sortSliceStable (displayLess isSupport) kept)"

subsection \<open>Levels of one timeframe\<close>

text \<open>The two statistics tables are maps from the extremum's index to its
  \<open>levelStats\<close>. The touch scan of the source updates both tables in one pass over the
  candles; the tables do not read each other, so the model runs one pass for each.\<close>

definition initStats :: "nat \<Rightarrow> levelPoint list \<Rightarrow> (nat \<rightharpoonup> levelStats)" where
  "initStats n points =
     foldl (\<lambda>stats point.
              stats(Index point \<mapsto>
                \<lparr>touches = 1, levelStats.weight = calcRecencyWeight n (Index point)\<rparr>))
       Map.empty points"

definition addTouch :: "nat \<Rightarrow> nat \<Rightarrow> levelStats \<Rightarrow> levelStats" where
  "addTouch n idx st =
     st\<lparr>touches := touches st + 1,
        levelStats.weight := levelStats.weight st + calcRecencyWeight n idx\<rparr>"

definition touchSupport :: "nat \<Rightarrow> nat \<Rightarrow> Kline \<Rightarrow> (nat \<rightharpoonup> levelStats) \<Rightarrow> levelPoint \<Rightarrow>
    (nat \<rightharpoonup> levelStats)" where
  "touchSupport n idx candle stats point =
     (if idx = Index point then stats
      else case stats (Index point) of
             None \<Rightarrow> stats
           | Some st \<Rightarrow>
               if levelPoint.Price point \<le> 0 then stats
               else if Low candle \<le> levelPoint.Price point * (1 + 0.002) \<and>
                       Low candle \<ge> levelPoint.Price point * (1 - 0.002)
                    then stats(Index point \<mapsto> addTouch n idx st)
                    else stats)"

definition touchResistance :: "nat \<Rightarrow> nat \<Rightarrow> Kline \<Rightarrow> (nat \<rightharpoonup> levelStats) \<Rightarrow> levelPoint \<Rightarrow>
    (nat \<rightharpoonup> levelStats)" where
  "touchResistance n idx candle stats point =
     (if idx = Index point then stats
      else case stats (Index point) of
             None \<Rightarrow> stats
           | Some st \<Rightarrow>
               if levelPoint.Price point \<le> 0 then stats
               else if High candle \<ge> levelPoint.Price point * (1 - 0.002) \<and>
                       High candle \<le> levelPoint.Price point * (1 + 0.002)
                    then stats(Index point \<mapsto> addTouch n idx st)
                    else stats)"

definition scanTouches ::
    "(nat \<Rightarrow> Kline \<Rightarrow> (nat \<rightharpoonup> levelStats) \<Rightarrow> levelPoint \<Rightarrow> (nat \<rightharpoonup> levelStats)) \<Rightarrow>
     Kline list \<Rightarrow> levelPoint list \<Rightarrow> (nat \<rightharpoonup> levelStats) \<Rightarrow> (nat \<rightharpoonup> levelStats)" where
  "scanTouches touch recent points stats =
     foldl (\<lambda>st ic. foldl (touch (fst ic) (snd ic)) st points) stats
       (List.enumerate 0 recent)"

definition collectLevels :: "bool \<Rightarrow> real \<Rightarrow> (nat \<rightharpoonup> levelStats) \<Rightarrow> levelPoint list \<Rightarrow>
    SupportResistanceLevel list" where
  "collectLevels isSupport currentPrice stats points =
     foldl (\<lambda>acc point.
              case stats (Index point) of
                None \<Rightarrow> acc
              | Some st \<Rightarrow>
                  if (if isSupport then levelPoint.Price point < currentPrice
                      else levelPoint.Price point > currentPrice)
                  then acc @ [\<lparr>Price = levelPoint.Price point, Strength = touches st,
                               Distance = 0, Score = levelStats.weight st,
                               IsSupport = isSupport\<rparr>]
                  else acc)
       [] points"

text \<open>\<open>lookback\<close> is the constant 120 at the only call site; \<open>len - lookback\<close> clamped at 0
  is the truncating subtraction of \<open>nat\<close>.\<close>

definition calculateSupportResistanceLevels :: "Kline list \<Rightarrow> nat \<Rightarrow>
    SupportResistanceLevel list \<times> SupportResistanceLevel list" where
  "calculateSupportResistanceLevels klines lookback =
     (if length klines = 0 then ([], [])
      else let start = length klines - lookback;
               recent = drop start klines
           in if length recent = 0 then ([], [])
              else let currentPrice = Close (last recent);
                       localMins = findLocalMinima recent;
                       localMaxs = findLocalMaxima recent;
                       n = length recent;
                       supportStats =
                         scanTouches (touchSupport n) recent localMins (initStats n localMins);
                       resistanceStats =
                         scanTouches (touchResistance n) recent localMaxs (initStats n localMaxs);
                       supports0 = collectLevels True currentPrice supportStats localMins;
                       resistances0 = collectLevels False currentPrice resistanceStats localMaxs;
                       supports1 = mergeNearbyLevels supports0 0.002;
                       resistances1 = mergeNearbyLevels resistances0 0.002;
                       supports2 = updateLevelDistances supports1 currentPrice True;
                       resistances2 = updateLevelDistances resistances1 currentPrice False
                   in (sortAndFilterLevels supports2 True,
                       sortAndFilterLevels resistances2 False))"

subsection \<open>Confluence\<close>

text \<open>\<open>math.Round\<close> rounds half away from zero.\<close>

definition goRound :: "real \<Rightarrow> int" where
  "goRound x = (if x \<ge> 0 then \<lfloor>x + 1 / 2\<rfloor> else \<lceil>x - 1 / 2\<rceil>)"

definition levelsMatch :: "real \<Rightarrow> SupportResistanceLevel \<Rightarrow> SupportResistanceLevel \<Rightarrow> bool" where
  "levelsMatch tolerance level other =
     (let denom = (Price level + Price other) / 2
      in denom \<noteq> 0 \<and> \<bar>Price level - Price other\<bar> / denom \<le> tolerance)"

text \<open>The two nested loops with the flag \<open>matched\<close>: the first set that holds a matching
  level, and in it the first matching level.\<close>

fun firstMatch :: "real \<Rightarrow> SupportResistanceLevel \<Rightarrow> weightedLevelSet list \<Rightarrow>
    (SupportResistanceLevel \<times> real) option" where
  "firstMatch tolerance level [] = None"
| "firstMatch tolerance level (s # sets) =
     (case find (levelsMatch tolerance level) (levels s) of
        Some other \<Rightarrow> Some (other, weightedLevelSet.weight s)
      | None \<Rightarrow> firstMatch tolerance level sets)"

definition discountBase :: "SupportResistanceLevel \<Rightarrow> SupportResistanceLevel" where
  "discountBase level =
     level\<lparr>Score := Score level * 0.5,
           Strength := goRound (real_of_int (Strength level) * 0.5)\<rparr>"

definition addContribution :: "SupportResistanceLevel \<Rightarrow> SupportResistanceLevel \<Rightarrow> real \<Rightarrow>
    SupportResistanceLevel" where
  "addContribution combined other w =
     combined\<lparr>Score := Score combined + Score other * w,
              Strength := Strength combined + goRound (real_of_int (Strength other) * w)\<rparr>"

definition combineLevel :: "real \<Rightarrow> weightedLevelSet list \<Rightarrow> SupportResistanceLevel \<Rightarrow>
    SupportResistanceLevel option" where
  "combineLevel tolerance sets level =
     (case firstMatch tolerance level sets of
        None \<Rightarrow> None
      | Some (other, w) \<Rightarrow> Some (addContribution (discountBase level) other w))"

definition findConfluenceLevels :: "SupportResistanceLevel list \<Rightarrow> weightedLevelSet list \<Rightarrow>
    real \<Rightarrow> real \<Rightarrow> bool \<Rightarrow> SupportResistanceLevel list" where
  "findConfluenceLevels base sets tolerance currentPrice isSupport =
     (if length base = 0 \<or> length sets = 0 then []
      else let result = List.map_filter (combineLevel tolerance sets) base
           in if length result = 0 then result
              else sortAndFilterLevels (updateLevelDistances result currentPrice isSupport)
                     isSupport)"

subsection \<open>Summary over the timeframes\<close>

definition addTimeframe :: "(string \<rightharpoonup> SupportResistanceTimeframe) \<Rightarrow> string \<times> Kline list \<Rightarrow>
    (string \<rightharpoonup> SupportResistanceTimeframe)" where
  "addTimeframe tfs tf =
     (if length (snd tf) = 0 then tfs
      else let sr = calculateSupportResistanceLevels (snd tf) 120
           in if length (fst sr) = 0 \<and> length (snd sr) = 0 then tfs
              else let tfPrice = Close (last (snd tf))
                   in tfs(fst tf \<mapsto>
                        \<lparr>Supports = updateLevelDistances (fst sr) tfPrice True,
                         Resistances = updateLevelDistances (snd sr) tfPrice False\<rparr>))"

fun pickBase :: "(string \<rightharpoonup> SupportResistanceTimeframe) \<Rightarrow> string list \<Rightarrow>
    (string \<times> SupportResistanceTimeframe) option" where
  "pickBase tfs [] = None"
| "pickBase tfs (name # names) =
     (case tfs name of Some tf \<Rightarrow> Some (name, tf) | None \<Rightarrow> pickBase tfs names)"

definition weighting :: "(string \<times> real) list" where
  "weighting = [(''3m'', 0.8), (''15m'', 1.0), (''1h'', 1.2), (''4h'', 1.4), (''12h'', 1.6),
                (''1d'', 1.8)]"

definition collectSets :: "(string \<rightharpoonup> SupportResistanceTimeframe) \<Rightarrow> string \<Rightarrow>
    (SupportResistanceTimeframe \<Rightarrow> SupportResistanceLevel list) \<Rightarrow> weightedLevelSet list" where
  "collectSets tfs baseName side =
     List.map_filter
       (\<lambda>config. if fst config = baseName then None
                  else case tfs (fst config) of
                         None \<Rightarrow> None
                       | Some tf \<Rightarrow> Some \<lparr>levels = side tf, weightedLevelSet.weight = snd config\<rparr>)
       weighting"

definition tfInputs :: "Kline list \<Rightarrow> Kline list \<Rightarrow> Kline list \<Rightarrow> Kline list \<Rightarrow> Kline list \<Rightarrow>
    Kline list \<Rightarrow> (string \<times> Kline list) list" where
  "tfInputs klines3m klines15m klines1h klines4h klines12h klines1d =
     [(''3m'', klines3m), (''15m'', klines15m), (''1h'', klines1h), (''4h'', klines4h),
      (''12h'', klines12h), (''1d'', klines1d)]"

definition calculateSupportResistanceSummary :: "Kline list \<Rightarrow> Kline list \<Rightarrow> Kline list \<Rightarrow>
    Kline list \<Rightarrow> Kline list \<Rightarrow> Kline list \<Rightarrow> real \<Rightarrow> SupportResistanceSummary" where
  "calculateSupportResistanceSummary klines3m klines15m klines1h klines4h klines12h klines1d
       currentPrice =
     (let tfs = foldl addTimeframe Map.empty
                  (tfInputs klines3m klines15m klines1h klines4h klines12h klines1d);
          summary = \<lparr>Timeframes = tfs, Confluence = None\<rparr>
      in case pickBase tfs [''3m'', ''15m'', ''1h'', ''4h''] of
           None \<Rightarrow> summary
         | Some (baseName, base) \<Rightarrow>
             let supportSets = collectSets tfs baseName Supports;
                 resistanceSets = collectSets tfs baseName Resistances
             in if length supportSets > 0
                then summary\<lparr>Confluence := Some
                       \<lparr>Supports = findConfluenceLevels (Supports base) supportSets 0.002
                                     currentPrice True,
                        Resistances = findConfluenceLevels (Resistances base) resistanceSets
                                        0.002 currentPrice False\<rparr>\<rparr>
                else summary)"

subsection \<open>Predicates and keys used in the statements\<close>

definition strictlyIncreasing :: "Kline list \<Rightarrow> bool" where
  "strictlyIncreasing klines =
     list_all (\<lambda>i. Close (klines ! i) < Close (klines ! (i + 1))) [0 ..< length klines - 1]"

definition flatCloses :: "Kline list \<Rightarrow> bool" where
  "flatCloses klines =
     list_all (\<lambda>i. Close (klines ! (i + 1)) = Close (klines ! i)) [0 ..< length klines - 1]"

text \<open>The two comparisons of \<open>sortAndFilterLevels\<close> are the strict lexicographic orders
  of these keys.\<close>

definition rankKey :: "bool \<Rightarrow> SupportResistanceLevel \<Rightarrow> real \<times> int \<times> real \<times> real" where
  "rankKey isSupport l =
     (- Score l, - Strength l, Distance l, (if isSupport then - Price l else Price l))"

definition displayKey :: "bool \<Rightarrow> SupportResistanceLevel \<Rightarrow> real \<times> real" where
  "displayKey isSupport l = (Distance l, (if isSupport then - Price l else Price l))"

text \<open>A level on its side of a reference price: a support below it, a resistance above
  it.\<close>

definition correctSide :: "real \<Rightarrow> SupportResistanceLevel \<Rightarrow> bool" where
  "correctSide price l = (if IsSupport l then Price l < price else Price l > price)"

definition entryOnSide :: "real \<Rightarrow> SupportResistanceTimeframe \<Rightarrow> bool" where
  "entryOnSide price tf =
     (list_all (\<lambda>l. IsSupport l \<and> correctSide price l) (Supports tf) \<and>
      list_all (\<lambda>l. \<not> IsSupport l \<and> correctSide price l) (Resistances tf))"

text \<open>The invariants the proofs carry through the pipeline: a level of the given kind on
  its side with a positive score, a statistics table with positive weights, and a table of
  timeframe entries each on the side of the last close of its candles.\<close>

definition onSide :: "bool \<Rightarrow> real \<Rightarrow> SupportResistanceLevel \<Rightarrow> bool" where
  "onSide isSupport price l =
     (IsSupport l = isSupport \<and> Score l > 0 \<and>
      (if isSupport then Price l < price else Price l > price))"

definition statsPositive :: "(nat \<rightharpoonup> levelStats) \<Rightarrow> bool" where
  "statsPositive stats = (\<forall>k st. stats k = Some st \<longrightarrow> 0 < levelStats.weight st)"

definition entriesFrom :: "(string \<times> Kline list) list \<Rightarrow>
    (string \<rightharpoonup> SupportResistanceTimeframe) \<Rightarrow> bool" where
  "entriesFrom inputs tfs =
     (\<forall>name e. tfs name = Some e \<longrightarrow>
        (\<exists>ks. (name, ks) \<in> set inputs \<and> entryOnSide (Close (last ks)) e))"

subsection \<open>Example candles and levels\<close>

definition mkCandle :: "real \<Rightarrow> real \<Rightarrow> real \<Rightarrow> Kline" where
  "mkCandle h l c = \<lparr>OpenTime = 0, Open = c, High = h, Low = l, Close = c, Volume = 0,
                   CloseTime = 0\<rparr>"

text \<open>Seven candles closing at 100 with highs at 101 and a single low of 90 in the
  middle.\<close>

definition dipCandles :: "Kline list" where
  "dipCandles =
     [mkCandle 101 95 100, mkCandle 101 94 100, mkCandle 101 93 100, mkCandle 101 90 100,
      mkCandle 101 93 100, mkCandle 101 94 100, mkCandle 101 95 100]"

text \<open>The same candles with the low in the middle at 80.\<close>

definition dip80Candles :: "Kline list" where
  "dip80Candles =
     [mkCandle 101 95 100, mkCandle 101 94 100, mkCandle 101 93 100, mkCandle 101 80 100,
      mkCandle 101 93 100, mkCandle 101 94 100, mkCandle 101 95 100]"

definition exLevel :: "real \<Rightarrow> int \<Rightarrow> real \<Rightarrow> SupportResistanceLevel" where
  "exLevel p st sc = \<lparr>Price = p, Strength = st, Distance = 0, Score = sc, IsSupport = True\<rparr>"

definition exSets :: "weightedLevelSet list" where
  "exSets = [\<lparr>levels = [exLevel 100 1 1], weightedLevelSet.weight = 0.8\<rparr>,
             \<lparr>levels = [exLevel 80 1 1, exLevel 90.1 2 2], weightedLevelSet.weight = 1.2\<rparr>,
             \<lparr>levels = [exLevel 90 5 10], weightedLevelSet.weight = 1.4\<rparr>]"

subsection \<open>binary64 arithmetic, for the exact value of an EMA\<close>

text \<open>
  Where a statement is about the exact value a \<open>float64\<close> computation returns, the
  rounding of each operation matters. Go's \<open>float64\<close> is IEEE 754 binary64 and each of
  \<open>+ - * /\<close> returns the exact result rounded to the nearest value with a 53-bit
  significand, ties to the even significand. \<open>b64\<close> is that rounding, for results whose
  magnitude is below \<open>2^1024\<close> (no overflow to infinity); exponents below the normal range
  round on the fixed grid \<open>2^-1074\<close>. \<open>floorLog2 x\<close> is the integer \<open>e\<close> with
  \<open>2^e \<le> x < 2^(e+1)\<close> for positive \<open>x\<close>.
\<close>

function bitLength :: "int \<Rightarrow> nat" where
  "bitLength n = (if n \<le> 0 then 0 else Suc (bitLength (n div 2)))"
  by pat_completeness auto
termination
  by (relation "measure nat") auto

declare bitLength.simps [simp del]

definition floorLog2 :: "real \<Rightarrow> int" where
  "floorLog2 x =
     (if 1 \<le> x then int (bitLength \<lfloor>x\<rfloor>) - 1
      else - int (bitLength (\<lceil>1 / x\<rceil> - 1)))"

definition roundHalfEven :: "real \<Rightarrow> int" where
  "roundHalfEven x =
     (let f = \<lfloor>x\<rfloor>; d = x - of_int f
      in if d < 1 / 2 then f else if d > 1 / 2 then f + 1
         else if even f then f else f + 1)"

definition b64 :: "real \<Rightarrow> real" where
  "b64 x =
     (if x = 0 then 0
      else let e = max (floorLog2 \<bar>x\<bar> - 52) (- 1074)
           in of_int (roundHalfEven (x / 2 powi e)) * 2 powi e)"








text \<open>The \<open>float64\<close> nearest to 0.1.\<close>

definition tenth64 :: real where
  "tenth64 = 3602879701896397 / 36028797018963968"

subsection \<open>Open-interest cache\<close>

record OIData =
  Latest :: real
  Average :: real

definition zeroOI :: OIData where
  "zeroOI = \<lparr>Latest = 0, Average = 0\<rparr>"

text \<open>
  The package variables \<open>hyperliquidOICache\<close> and \<open>hyperliquidOICacheTime\<close> are the two
  fields of the cache state. Times are nanoseconds on the clock \<open>time.Since\<close> reads; the
  zero \<open>time.Time\<close> of a cache that was never refreshed is \<open>None\<close>, and its age is not below
  the TTL. The upstream bulk call (the POST of \<open>metaAndAssetCtxs\<close>, the status check and
  the decoding of the response into a table keyed by normalized symbol) is one value: the
  error it ends with, or the table \<open>newCache\<close>.

  The function reads the clock once under the read lock (\<open>now1\<close>), once more under the
  exclusive lock (\<open>now2\<close>) and, after a successful upstream call, a third time for the new
  timestamp (\<open>now3\<close>). The read lock section and the exclusive lock section are atomic
  with respect to each other (a \<open>sync.RWMutex\<close>), so concurrent callers are modelled by
  running their sections one after another.
\<close>

record cacheState =
  hyperliquidOICache :: "string \<rightharpoonup> real"
  hyperliquidOICacheTime :: "int option"

definition hyperliquidOICacheTTL :: int where
  "hyperliquidOICacheTTL = 30 * 1000000000"

definition emptyCache :: cacheState where
  "emptyCache = \<lparr>hyperliquidOICache = Map.empty, hyperliquidOICacheTime = None\<rparr>"

definition cacheValid :: "int \<Rightarrow> cacheState \<Rightarrow> bool" where
  "cacheValid now st =
     (case hyperliquidOICacheTime st of
        None \<Rightarrow> False
      | Some t \<Rightarrow> now - t < hyperliquidOICacheTTL)"

definition oiOf :: "real \<Rightarrow> OIData" where
  "oiOf oi = \<lparr>Latest = oi, Average = oi * 0.999\<rparr>"

text \<open>The test both lock sections start with: the cache is valid and holds the symbol.\<close>

definition cachedOI :: "int \<Rightarrow> cacheState \<Rightarrow> string \<Rightarrow> OIData option" where
  "cachedOI now st symbol =
     (if cacheValid now st then map_option oiOf (hyperliquidOICache st symbol) else None)"

record lookup =
  newState :: cacheState
  upstreamCalls :: nat
  answer :: "string + OIData"

definition lockedSection :: "cacheState \<Rightarrow> int \<Rightarrow> int \<Rightarrow> string + (string \<rightharpoonup> real) \<Rightarrow> string \<Rightarrow>
    lookup" where
  "lockedSection st now2 now3 response symbol =
     (case cachedOI now2 st symbol of
        Some oi \<Rightarrow> \<lparr>newState = st, upstreamCalls = 0, answer = Inr oi\<rparr>
      | None \<Rightarrow>
          (case response of
             Inl err \<Rightarrow> \<lparr>newState = st, upstreamCalls = 1, answer = Inl err\<rparr>
           | Inr newCache \<Rightarrow>
               \<lparr>newState = \<lparr>hyperliquidOICache = newCache,
                              hyperliquidOICacheTime = Some now3\<rparr>,
                upstreamCalls = 1,
                answer = Inr (case newCache symbol of
                                Some oi \<Rightarrow> oiOf oi
                              | None \<Rightarrow> zeroOI)\<rparr>))"

definition getHyperliquidOpenInterestData :: "cacheState \<Rightarrow> int \<Rightarrow> int \<Rightarrow> int \<Rightarrow>
    string + (string \<rightharpoonup> real) \<Rightarrow> string \<Rightarrow> lookup" where
  "getHyperliquidOpenInterestData st now1 now2 now3 response symbol =
     (case cachedOI now1 st symbol of
        Some oi \<Rightarrow> \<lparr>newState = st, upstreamCalls = 0, answer = Inr oi\<rparr>
      | None \<Rightarrow> lockedSection st now2 now3 response symbol)"

text \<open>One caller: the symbol it asks for, its three clock readings (\<open>now1\<close>, \<open>now2\<close>,
  \<open>now3\<close> above) and what the upstream call returns if this caller makes it.\<close>

record caller =
  callerSymbol :: string
  readClock :: int
  lockClock :: int
  refreshClock :: int
  upstream :: "string + (string \<rightharpoonup> real)"

text \<open>Lookups one after another, and callers that have all missed under the read lock and
  take the exclusive lock one after another; both return the final state and the number of
  upstream calls.\<close>

fun runLookups :: "cacheState \<Rightarrow> caller list \<Rightarrow> cacheState \<times> nat" where
  "runLookups st [] = (st, 0)"
| "runLookups st (c # cs) =
     (let r = getHyperliquidOpenInterestData st (readClock c) (lockClock c) (refreshClock c)
                (upstream c) (callerSymbol c);
          rest = runLookups (newState r) cs
      in (fst rest, upstreamCalls r + snd rest))"

fun runLocked :: "cacheState \<Rightarrow> caller list \<Rightarrow> cacheState \<times> nat" where
  "runLocked st [] = (st, 0)"
| "runLocked st (c # cs) =
     (let r = lockedSection st (lockClock c) (refreshClock c) (upstream c) (callerSymbol c);
          rest = runLocked (newState r) cs
      in (fst rest, upstreamCalls r + snd rest))"

text \<open>
  Concurrent callers. The body of the function is two critical sections: the one under the
  read lock, which only reads, and the one under the exclusive lock, which a caller enters
  only after it missed under the read lock; between the two the caller holds no lock and
  other goroutines may run. A schedule lists the sections in the order in which they run,
  each naming its caller by index. The progress of a schedule is the shared cache, the
  number of upstream calls made so far, and the callers that missed under the read lock
  and have not yet held the exclusive lock.
\<close>

datatype event = ReadSection nat | LockSection nat

record progress =
  shared :: cacheState
  fetches :: nat
  waiting :: "nat list"

definition stepEvent :: "caller list \<Rightarrow> progress \<Rightarrow> event \<Rightarrow> progress" where
  "stepEvent cs r e =
     (case e of
        ReadSection i \<Rightarrow>
          (case cachedOI (readClock (cs ! i)) (shared r) (callerSymbol (cs ! i)) of
             Some oi \<Rightarrow> r
           | None \<Rightarrow> r\<lparr>waiting := i # waiting r\<rparr>)
      | LockSection i \<Rightarrow>
          (if i \<in> set (waiting r)
           then (let res = lockedSection (shared r) (lockClock (cs ! i)) (refreshClock (cs ! i))
                             (upstream (cs ! i)) (callerSymbol (cs ! i))
                 in \<lparr>shared = newState res, fetches = fetches r + upstreamCalls res,
                     waiting = removeAll i (waiting r)\<rparr>)
           else r))"

definition runSchedule :: "cacheState \<Rightarrow> caller list \<Rightarrow> event list \<Rightarrow> progress" where
  "runSchedule st cs es =
     foldl (stepEvent cs) \<lparr>shared = st, fetches = 0, waiting = []\<rparr> es"

text \<open>A schedule of \<open>n\<close> callers: every section at most once, every caller's read section,
  and its lock section somewhere after it (it does nothing for a caller that did not miss).\<close>

definition schedule :: "nat \<Rightarrow> event list \<Rightarrow> bool" where
  "schedule n es \<longleftrightarrow>
     distinct es \<and>
     list_all (\<lambda>e. case e of ReadSection i \<Rightarrow> i < n | LockSection i \<Rightarrow> i < n) es \<and>
     list_all (\<lambda>i. LockSection i \<in> set (dropWhile (\<lambda>e. e \<noteq> ReadSection i) es)) [0 ..< n]"

text \<open>The progress after the one refresh: one upstream call made, and the cache holding the
  table and the timestamp of the caller that made it.\<close>

definition refreshed :: "caller list \<Rightarrow> progress \<Rightarrow> bool" where
  "refreshed cs r \<longleftrightarrow>
     fetches r = 1 \<and>
     (\<exists>c\<in>set cs. \<exists>T. upstream c = Inr T \<and>
        shared r = \<lparr>hyperliquidOICache = T, hyperliquidOICacheTime = Some (refreshClock c)\<rparr>)"

definition exTable :: "string \<rightharpoonup> real" where
  "exTable = [''BTCUSDT'' \<mapsto> 100, ''ETHUSDT'' \<mapsto> 50]"

definition exCaller :: "string \<Rightarrow> int \<Rightarrow> caller" where
  "exCaller s t = \<lparr>callerSymbol = s, readClock = t, lockClock = t, refreshClock = t,
                    upstream = Inr exTable\<rparr>"

definition exQueue :: "string + (string \<rightharpoonup> real) \<Rightarrow> string \<Rightarrow> caller list" where
  "exQueue response s =
     [\<lparr>callerSymbol = ''BTCUSDT'', readClock = 31000000000, lockClock = 33000000000,
        refreshClock = 34000000000, upstream = response\<rparr>,
      \<lparr>callerSymbol = s, readClock = 32000000000, lockClock = 35000000000,
        refreshClock = 36000000000, upstream = response\<rparr>]"

subsection \<open>Snapshot assembly\<close>

record OITopData =
  Rank :: int
  OIDeltaPercent :: real
  OIDeltaValue :: real
  PriceDeltaPercent :: real
  NetLong :: real
  NetShort :: real

record IntradayData =
  MidPrices :: "real list"
  EMA20Values :: "real list"
  MACDValues :: "real list"
  RSI7Values :: "real list"
  RSI14Values :: "real list"

record LongerTermData =
  EMA20 :: real
  EMA50 :: real
  ATR3 :: real
  ATR14 :: real
  CurrentVolume :: real
  AverageVolume :: real
  MACDValues :: "real list"
  RSI14Values :: "real list"

record Data =
  Symbol :: string
  CurrentPrice :: real
  PriceChange1h :: real
  PriceChange4h :: real
  CurrentEMA20 :: real
  CurrentMACD :: real
  CurrentRSI7 :: real
  OpenInterest :: "OIData option"
  FundingRate :: real
  IntradaySeries :: "IntradayData option"
  LongerTermContext :: "LongerTermData option"
  OITopData :: "OITopData option"
  SupportResistance :: "SupportResistanceSummary option"

text \<open>\<open>Normalize\<close>: \<open>strings.ToUpper\<close> on the letters a to z (symbols are ASCII), then the
  suffix test.\<close>

definition toUpperChar :: "char \<Rightarrow> char" where
  "toUpperChar c =
     (if 97 \<le> (of_char c :: nat) \<and> (of_char c :: nat) \<le> 122
      then char_of ((of_char c :: nat) - 32) else c)"

definition hasSuffixUSDT :: "string \<Rightarrow> bool" where
  "hasSuffixUSDT s = (drop (length s - 4) s = ''USDT'')"

definition Normalize :: "string \<Rightarrow> string" where
  "Normalize symbol =
     (let upper = map toUpperChar symbol
      in if hasSuffixUSDT upper then upper else upper @ ''USDT'')"

text \<open>\<open>defaultCoins\<close> is a \<open>map[string]bool\<close> that only ever holds the value true
  (\<open>SetDefaultCoins\<close>): the set of its keys.\<close>

definition isInDefaultCoins :: "string set \<Rightarrow> string \<Rightarrow> bool" where
  "isInDefaultCoins defaultCoins symbol =
     (if defaultCoins = {} then True
      else Normalize symbol \<in> defaultCoins)"

text \<open>The windows of the last ten indices, \<open>start = max (len - 10) 0\<close>, and the slices
  \<open>klines[:i+1]\<close>.\<close>

definition lastTen :: "Kline list \<Rightarrow> nat list" where
  "lastTen klines = [length klines - 10 ..< length klines]"

definition calculateIntradaySeries :: "Kline list \<Rightarrow> IntradayData" where
  "calculateIntradaySeries klines =
     \<lparr>MidPrices = map (\<lambda>i. Close (klines ! i)) (lastTen klines),
      EMA20Values = map (\<lambda>i. calculateEMA (take (i + 1) klines) 20)
                      (filter (\<lambda>i. i \<ge> 19) (lastTen klines)),
      IntradayData.MACDValues = map (\<lambda>i. calculateMACD (take (i + 1) klines))
                      (filter (\<lambda>i. i \<ge> 25) (lastTen klines)),
      RSI7Values = map (\<lambda>i. calculateRSI (take (i + 1) klines) 7)
                      (filter (\<lambda>i. i \<ge> 7) (lastTen klines)),
      IntradayData.RSI14Values = map (\<lambda>i. calculateRSI (take (i + 1) klines) 14)
                      (filter (\<lambda>i. i \<ge> 14) (lastTen klines))\<rparr>"

definition calculateLongerTermData :: "Kline list \<Rightarrow> LongerTermData" where
  "calculateLongerTermData klines =
     \<lparr>EMA20 = calculateEMA klines 20,
      EMA50 = calculateEMA klines 50,
      ATR3 = calculateATR klines 3,
      ATR14 = calculateATR klines 14,
      CurrentVolume = (if length klines > 0 then Volume (last klines) else 0),
      AverageVolume = (if length klines > 0
                       then foldl (\<lambda>s k. s + Volume k) 0 klines / real (length klines)
                       else 0),
      LongerTermData.MACDValues = map (\<lambda>i. calculateMACD (take (i + 1) klines))
                      (filter (\<lambda>i. i \<ge> 25) (lastTen klines)),
      LongerTermData.RSI14Values = map (\<lambda>i. calculateRSI (take (i + 1) klines) 14)
                      (filter (\<lambda>i. i \<ge> 14) (lastTen klines))\<rparr>"

text \<open>
  The collaborators of \<open>Get\<close> are the network functions. They are the fields of an
  environment: each returns its error (the message) or its value; for the Hyperliquid path
  the environment holds the three clock readings and the outcome of the upstream bulk call
  that \<open>getHyperliquidOpenInterestData\<close> may make, and \<open>Get\<close> takes the cache state and
  returns it. \<open>Get\<close> returns the list of the network calls it issued, in order, next to
  its result. A failed candle fetch is the error \<open>KlinesFailed\<close> with the interval it names;
  indexing the last candle of an empty 3m series is the run-time panic
  \<open>PanicIndexOutOfRange\<close>.
  The snapshot code passes four candle series and the current price to
  \<open>calculateSupportResistanceSummary\<close>, whose definition in the same source takes six series;
  the model passes empty 12h and 1d series, which the summary skips.
\<close>

datatype call =
  CallKlines string string
  | CallOIBinance string
  | CallHyperliquidMeta
  | CallFunding string

datatype getFailure =
  KlinesFailed string string
  | PanicIndexOutOfRange

record env =
  getKlines :: "string \<Rightarrow> string \<Rightarrow> nat \<Rightarrow> string + Kline list"
  getOpenInterestData :: "string \<Rightarrow> string + OIData"
  getFundingRate :: "string \<Rightarrow> string + real"
  defaultCoins :: "string set"
  clock1 :: int
  clock2 :: int
  clock3 :: int
  metaAndAssetCtxs :: "string + (string \<rightharpoonup> real)"

record snapshot =
  calls :: "call list"
  outcome :: "getFailure + Data"
  cache :: cacheState

definition priceChange :: "real \<Rightarrow> real \<Rightarrow> real" where
  "priceChange currentPrice priceAgo =
     (if priceAgo > 0 then ((currentPrice - priceAgo) / priceAgo) * 100 else 0)"

definition hyperliquidLookup :: "env \<Rightarrow> cacheState \<Rightarrow> string \<Rightarrow> lookup" where
  "hyperliquidLookup e st symbol =
     getHyperliquidOpenInterestData st (clock1 e) (clock2 e) (clock3 e) (metaAndAssetCtxs e)
       symbol"

definition fetchOI :: "env \<Rightarrow> cacheState \<Rightarrow> string \<Rightarrow> string \<Rightarrow>
    call list \<times> OIData \<times> cacheState" where
  "fetchOI e st symbol exchange =
     (if isInDefaultCoins (defaultCoins e) symbol
      then (if exchange = ''hyperliquid''
            then (let r = hyperliquidLookup e st symbol
                  in (replicate (upstreamCalls r) CallHyperliquidMeta,
                      (case answer r of Inl err \<Rightarrow> zeroOI | Inr oi \<Rightarrow> oi),
                      newState r))
            else ([CallOIBinance symbol],
                  (case getOpenInterestData e symbol of Inl err \<Rightarrow> zeroOI | Inr oi \<Rightarrow> oi),
                  st))
      else ([], zeroOI, st))"

definition assemble :: "env \<Rightarrow> cacheState \<Rightarrow> string \<Rightarrow> string \<Rightarrow> Kline list \<Rightarrow> Kline list \<Rightarrow>
    Kline list \<Rightarrow> Kline list \<Rightarrow> snapshot" where
  "assemble e st symbol exchange klines3m klines15m klines1h klines4h =
     (if length klines3m = 0
      then \<lparr>calls = [], outcome = Inl PanicIndexOutOfRange, cache = st\<rparr>
      else let currentPrice = Close (last klines3m);
               priceChange1h =
                 (if length klines3m \<ge> 21
                  then priceChange currentPrice (Close (klines3m ! (length klines3m - 21)))
                  else 0);
               priceChange4h =
                 (if length klines4h \<ge> 2
                  then priceChange currentPrice (Close (klines4h ! (length klines4h - 2)))
                  else 0);
               oi = fetchOI e st symbol exchange;
               fundingRate = (case getFundingRate e symbol of Inl err \<Rightarrow> 0 | Inr rate \<Rightarrow> rate)
           in \<lparr>calls = fst oi @ [CallFunding symbol],
               outcome =
                 Inr \<lparr>Symbol = symbol,
                      CurrentPrice = currentPrice,
                      PriceChange1h = priceChange1h,
                      PriceChange4h = priceChange4h,
                      CurrentEMA20 = calculateEMA klines3m 20,
                      CurrentMACD = calculateMACD klines3m,
                      CurrentRSI7 = calculateRSI klines3m 7,
                      OpenInterest = Some (fst (snd oi)),
                      FundingRate = fundingRate,
                      IntradaySeries = Some (calculateIntradaySeries klines3m),
                      LongerTermContext = Some (calculateLongerTermData klines4h),
                      OITopData = None,
                      SupportResistance = Some (calculateSupportResistanceSummary klines3m
                        klines15m klines1h klines4h [] [] currentPrice)\<rparr>,
               cache = snd (snd oi)\<rparr>)"

definition Get :: "env \<Rightarrow> cacheState \<Rightarrow> string \<Rightarrow> string \<Rightarrow> snapshot" where
  "Get e st symbol0 exchange =
     (let symbol = Normalize symbol0
      in case getKlines e symbol ''3m'' 150 of
           Inl err \<Rightarrow> \<lparr>calls = [CallKlines symbol ''3m''],
                       outcome = Inl (KlinesFailed ''3m'' err), cache = st\<rparr>
         | Inr klines3m \<Rightarrow>
      case getKlines e symbol ''15m'' 150 of
           Inl err \<Rightarrow> \<lparr>calls = [CallKlines symbol ''3m'', CallKlines symbol ''15m''],
                       outcome = Inl (KlinesFailed ''15m'' err), cache = st\<rparr>
         | Inr klines15m \<Rightarrow>
      case getKlines e symbol ''1h'' 150 of
           Inl err \<Rightarrow> \<lparr>calls = [CallKlines symbol ''3m'', CallKlines symbol ''15m'',
                                CallKlines symbol ''1h''],
                       outcome = Inl (KlinesFailed ''1h'' err), cache = st\<rparr>
         | Inr klines1h \<Rightarrow>
      case getKlines e symbol ''4h'' 150 of
           Inl err \<Rightarrow> \<lparr>calls = [CallKlines symbol ''3m'', CallKlines symbol ''15m'',
                                CallKlines symbol ''1h'', CallKlines symbol ''4h''],
                       outcome = Inl (KlinesFailed ''4h'' err), cache = st\<rparr>
         | Inr klines4h \<Rightarrow>
             (let r = assemble e st symbol exchange klines3m klines15m klines1h klines4h
              in r\<lparr>calls := [CallKlines symbol ''3m'', CallKlines symbol ''15m'',
                              CallKlines symbol ''1h'', CallKlines symbol ''4h''] @ calls r\<rparr>))"

definition isOICall :: "call \<Rightarrow> bool" where
  "isOICall c = (case c of CallOIBinance s \<Rightarrow> True | CallHyperliquidMeta \<Rightarrow> True | _ \<Rightarrow> False)"

text \<open>An example environment: the candle fetch of one chosen interval fails, every other
  candle fetch returns the seven example candles, open interest and funding are down.\<close>

definition exEnv :: "string \<Rightarrow> string set \<Rightarrow> env" where
  "exEnv failing coins =
     \<lparr>getKlines = (\<lambda>symbol interval limit.
                     if interval = failing then Inl ''timeout'' else Inr dipCandles),
      getOpenInterestData = (\<lambda>symbol. Inl ''down''),
      getFundingRate = (\<lambda>symbol. Inl ''down''),
      defaultCoins = coins,
      clock1 = 0, clock2 = 0, clock3 = 0,
      metaAndAssetCtxs = Inl ''down''\<rparr>"

section \<open>Degenerate inputs of the indicators\<close>

text \<open>
  C7. With insufficient history the indicators return the defined value 0:
  \<open>calculateEMA\<close> for fewer than \<open>period\<close> candles, \<open>calculateMACD\<close> for fewer than 26
  candles, \<open>calculateRSI\<close> and \<open>calculateATR\<close> for at most \<open>period\<close> candles. In
  particular every series of candles whose closes are
  100, 102, 101, 99, 98, 97, 99, 103, 105, 104 has EMA(20) = 0 and MACD = 0.
\<close>

theorem insufficient_history_returns_zero:
  "(length klines < period \<longrightarrow> calculateEMA klines period = 0) \<and>
   (length klines < 26 \<longrightarrow> calculateMACD klines = 0) \<and>
   (length klines \<le> period \<longrightarrow>
      calculateRSI klines period = 0 \<and> calculateATR klines period = 0) \<and>
   (map Close klines = [100, 102, 101, 99, 98, 97, 99, 103, 105, 104] \<longrightarrow>
      calculateEMA klines 20 = 0 \<and> calculateMACD klines = 0)"
proof -
  have ex: "calculateEMA klines 20 = 0 \<and> calculateMACD klines = 0"
    if h: "map Close klines = [100, 102, 101, 99, 98, 97, 99, 103, 105, 104]"
  proof -
    have "length (map Close klines) = 10" by (simp add: h)
    then have "length klines = 10" by simp
    then show ?thesis by (simp add: calculateEMA_def calculateMACD_def)
  qed
  show ?thesis
    using ex by (simp add: calculateEMA_def calculateMACD_def calculateRSI_def calculateATR_def)
qed

theorem insufficient_history_witness:
  "calculateEMA (map flatKline [100, 102, 101, 99, 98, 97, 99, 103, 105, 104]) 20 = 0 \<and>
   calculateMACD (map flatKline [100, 102, 101, 99, 98, 97, 99, 103, 105, 104]) = 0 \<and>
   calculateRSI (map flatKline [100, 102, 101, 99, 98, 97, 99, 103, 105, 104]) 20 = 0 \<and>
   calculateATR (map flatKline [100, 102, 101, 99, 98, 97, 99, 103, 105, 104]) 20 = 0"
  using insufficient_history_returns_zero
          [of "map flatKline [100, 102, 101, 99, 98, 97, 99, 103, 105, 104]" 20]
  by (simp add: flatKline_def)

section \<open>EMA of a constant series\<close>





section \<open>RSI\<close>

lemma rsi_sum_nonneg:
  "0 \<le> fst a \<Longrightarrow> 0 \<le> snd a \<Longrightarrow>
   0 \<le> fst (foldl rsi_sum_step a cs) \<and> 0 \<le> snd (foldl rsi_sum_step a cs)"
  by (induction cs arbitrary: a) (simp_all add: rsi_sum_step_def)

lemma rsi_wilder_nonneg:
  "0 < period \<Longrightarrow> 0 \<le> fst a \<Longrightarrow> 0 \<le> snd a \<Longrightarrow>
   0 \<le> fst (foldl (rsi_wilder_step period) a cs) \<and> 0 \<le> snd (foldl (rsi_wilder_step period) a cs)"
proof (induction cs arbitrary: a)
  case Nil then show ?case by simp
next
  case (Cons x cs)
  have p: "0 \<le> real period - 1" using Cons.prems(1) by simp
  have "0 \<le> fst (rsi_wilder_step period a x) \<and> 0 \<le> snd (rsi_wilder_step period a x)"
  proof (cases "0 < x")
    case True
    then show ?thesis using Cons.prems p by (simp add: rsi_wilder_step_def)
  next
    case False
    have "0 \<le> snd a * (real period - 1)" using Cons.prems p by simp
    moreover have "0 \<le> - x" using False by simp
    ultimately have "0 \<le> (snd a * (real period - 1) + (- x)) / real period" by simp
    moreover have "0 \<le> (fst a * (real period - 1)) / real period" using Cons.prems p by simp
    ultimately show ?thesis using False by (simp only: rsi_wilder_step_def if_False fst_conv snd_conv)
  qed
  then show ?case using Cons.IH[of "rsi_wilder_step period a x"] Cons.prems(1) by simp
qed

lemma rsi_averages_nonneg:
  assumes "0 < period"
  shows "0 \<le> fst (rsi_averages klines period) \<and> 0 \<le> snd (rsi_averages klines period)"
proof -
  let ?t = "foldl rsi_sum_step (0, 0) (take period (closeChanges klines))"
  have "0 \<le> fst ?t \<and> 0 \<le> snd ?t" by (rule rsi_sum_nonneg) simp_all
  then have "0 \<le> fst (fst ?t / real period, snd ?t / real period) \<and>
             0 \<le> snd (fst ?t / real period, snd ?t / real period)" by simp
  then show ?thesis
    using rsi_wilder_nonneg[OF assms, of "(fst ?t / real period, snd ?t / real period)"]
    by (simp add: rsi_averages_def Let_def)
qed

lemma rsi_sum_step_no_loss: "0 \<le> c \<Longrightarrow> snd (rsi_sum_step a c) = snd a"
  by (cases "0 < c") (simp_all add: rsi_sum_step_def)

lemma rsi_wilder_step_no_loss: "0 \<le> c \<Longrightarrow> snd a = 0 \<Longrightarrow> snd (rsi_wilder_step period a c) = 0"
  by (cases "0 < c") (simp_all add: rsi_wilder_step_def)

lemma rsi_sum_no_loss:
  "(\<And>c. c \<in> set cs \<Longrightarrow> 0 \<le> c) \<Longrightarrow> snd (foldl rsi_sum_step a cs) = snd a"
proof (induction cs arbitrary: a)
  case Nil then show ?case by simp
next
  case (Cons x cs)
  have "0 \<le> x" using Cons.prems by simp
  then have "snd (rsi_sum_step a x) = snd a" by (rule rsi_sum_step_no_loss)
  moreover have "snd (foldl rsi_sum_step (rsi_sum_step a x) cs) = snd (rsi_sum_step a x)"
    using Cons.prems by (intro Cons.IH) simp
  ultimately show ?case by simp
qed

lemma rsi_wilder_no_loss:
  "(\<And>c. c \<in> set cs \<Longrightarrow> 0 \<le> c) \<Longrightarrow> snd a = 0 \<Longrightarrow>
   snd (foldl (rsi_wilder_step period) a cs) = 0"
proof (induction cs arbitrary: a)
  case Nil then show ?case by simp
next
  case (Cons x cs)
  have "0 \<le> x" using Cons.prems(1) by simp
  then have "snd (rsi_wilder_step period a x) = 0" using Cons.prems(2) by (rule rsi_wilder_step_no_loss)
  moreover have "\<And>c. c \<in> set cs \<Longrightarrow> 0 \<le> c" using Cons.prems(1) by simp
  ultimately have "snd (foldl (rsi_wilder_step period) (rsi_wilder_step period a x) cs) = 0"
    by (intro Cons.IH)
  then show ?case by simp
qed

lemma rsi_averages_no_loss:
  assumes "\<And>c. c \<in> set (closeChanges klines) \<Longrightarrow> 0 \<le> c"
  shows "snd (rsi_averages klines period) = 0"
proof -
  let ?t = "foldl rsi_sum_step (0, 0) (take period (closeChanges klines))"
  have "snd ?t = snd (0::real, 0::real)"
    by (rule rsi_sum_no_loss) (use assms in \<open>meson in_set_takeD\<close>)
  then have "snd (fst ?t / real period, snd ?t / real period) = 0" by simp
  moreover have "\<And>c. c \<in> set (drop period (closeChanges klines)) \<Longrightarrow> 0 \<le> c"
    using assms by (meson in_set_dropD)
  ultimately show ?thesis
    using rsi_wilder_no_loss[of "drop period (closeChanges klines)" "(fst ?t / real period, snd ?t / real period)" period]
    by (simp add: rsi_averages_def Let_def)
qed

lemma changes_nonneg_incr:
  assumes "strictlyIncreasing klines" "c \<in> set (closeChanges klines)"
  shows "0 \<le> c"
proof -
  have a: "\<forall>i. i < length klines - 1 \<longrightarrow> Close (klines ! i) < Close (klines ! (i + 1))"
    using assms(1) by (simp add: strictlyIncreasing_def list_all_iff)
  from assms(2) obtain i where i: "1 \<le> i" "i < length klines"
      "c = Close (klines ! i) - Close (klines ! (i - 1))"
    by (auto simp: closeChanges_def)
  have "i - 1 < length klines - 1" "i - 1 + 1 = i" using i by arith+
  with a[rule_format, of "i - 1"] i(3) show "0 \<le> c" by simp
qed

lemma changes_nonneg_flat:
  assumes "flatCloses klines" "c \<in> set (closeChanges klines)"
  shows "0 \<le> c"
proof -
  have a: "\<forall>i. i < length klines - 1 \<longrightarrow> Close (klines ! (i + 1)) = Close (klines ! i)"
    using assms(1) by (simp add: flatCloses_def list_all_iff)
  from assms(2) obtain i where i: "1 \<le> i" "i < length klines"
      "c = Close (klines ! i) - Close (klines ! (i - 1))"
    by (auto simp: closeChanges_def)
  have "i - 1 < length klines - 1" "i - 1 + 1 = i" using i by arith+
  with a[rule_format, of "i - 1"] i(3) show "0 \<le> c" by simp
qed

lemma rsi_sum_fold:
  "foldl rsi_sum_step a cs =
     (fst a + sum_list (map (\<lambda>c. max c 0) cs), snd a + sum_list (map (\<lambda>c. max (- c) 0) cs))"
proof (induction cs arbitrary: a)
  case Nil then show ?case by simp
next
  case (Cons c cs)
  show ?case
  proof (cases "0 < c")
    case True
    then have "rsi_sum_step a c = (fst a + c, snd a)" by (simp add: rsi_sum_step_def)
    then show ?thesis using True by (simp add: Cons.IH max_def)
  next
    case False
    then have "rsi_sum_step a c = (fst a, snd a + (- c))" by (simp add: rsi_sum_step_def)
    then show ?thesis using False by (simp add: Cons.IH max_def)
  qed
qed

lemma closeChanges_shift:
  "closeChanges klines =
     map (\<lambda>i. Close (klines ! (i + 1)) - Close (klines ! i)) [0 ..< length klines - 1]"
proof -
  have "[1 ..< length klines] = map Suc [0 ..< length klines - 1]"
    by (cases "length klines") (simp_all add: map_Suc_upt del: upt_Suc)
  then show ?thesis by (simp add: closeChanges_def comp_def)
qed

lemma closeChanges_length: "length (closeChanges klines) = length klines - 1"
  by (simp add: closeChanges_def)

lemma rsi_averages_initial:
  assumes "length klines = period + 1"
  shows "rsi_averages klines period =
     (sum_list (map (\<lambda>i. max (Close (klines ! (i + 1)) - Close (klines ! i)) 0) [0 ..< period])
        / real period,
      sum_list (map (\<lambda>i. max (- (Close (klines ! (i + 1)) - Close (klines ! i))) 0) [0 ..< period])
        / real period)"
proof -
  have l: "length (closeChanges klines) = period" using assms by (simp add: closeChanges_length)
  have c: "closeChanges klines =
     map (\<lambda>i. Close (klines ! (i + 1)) - Close (klines ! i)) [0 ..< period]"
    using closeChanges_shift[of klines] assms by simp
  have "rsi_averages klines period =
     (fst (foldl rsi_sum_step (0, 0) (closeChanges klines)) / real period,
      snd (foldl rsi_sum_step (0, 0) (closeChanges klines)) / real period)"
    using l by (simp add: rsi_averages_def Let_def)
  then show ?thesis unfolding rsi_sum_fold c by (simp add: comp_def)
qed

lemma closeChanges_snoc:
  assumes "klines \<noteq> []"
  shows "closeChanges (klines @ [k]) = closeChanges klines @ [Close k - Close (last klines)]"
proof -
  have n: "0 < length klines" using assms by simp
  have "Suc 0 \<le> length klines" using n by arith
  then have "[1 ..< length (klines @ [k])] = [1 ..< length klines] @ [length klines]"
    by simp
  then have "closeChanges (klines @ [k]) =
     map (\<lambda>i. Close ((klines @ [k]) ! i) - Close ((klines @ [k]) ! (i - 1))) [1 ..< length klines] @
     [Close ((klines @ [k]) ! length klines) - Close ((klines @ [k]) ! (length klines - 1))]"
    by (simp add: closeChanges_def)
  moreover have "map (\<lambda>i. Close ((klines @ [k]) ! i) - Close ((klines @ [k]) ! (i - 1))) [1 ..< length klines] =
        map (\<lambda>i. Close (klines ! i) - Close (klines ! (i - 1))) [1 ..< length klines]"
    by (rule map_cong) (auto simp: nth_append)
  moreover have "(klines @ [k]) ! (length klines - 1) = last klines"
    using assms n by (simp add: nth_append last_conv_nth)
  ultimately show ?thesis by (simp add: closeChanges_def)
qed

lemma rsi_averages_snoc:
  assumes "period < length klines"
  shows "rsi_averages (klines @ [k]) period =
           rsi_wilder_step period (rsi_averages klines period) (Close k - Close (last klines))"
proof -
  have ne: "klines \<noteq> []" using assms by auto
  have l: "period \<le> length (closeChanges klines)" using assms by (simp add: closeChanges_length)
  show ?thesis
    using l by (simp add: rsi_averages_def Let_def closeChanges_snoc[OF ne])
qed

text \<open>
  C6. For more candles than the period (a positive period), \<open>calculateRSI\<close> returns 100
  when the smoothed average loss is zero, in particular for every strictly increasing and
  every flat close series; otherwise it returns 100 - 100 / (1 + avgGain / avgLoss), and
  that value lies between 0 and 100. The averages are the Wilder-smoothed ones: for
  \<open>period + 1\<close> candles they are the sum of the gains and the sum of the losses of the
  \<open>period\<close> close-to-close changes, each divided by the period, and each further candle
  replaces an average \<open>avg\<close> by \<open>(avg * (period - 1) + x) / period\<close>, where \<open>x\<close> is the
  gain (for the average gain) or the loss (for the average loss) of the new change, and 0
  for the other one.
\<close>

theorem rsi_values:
  assumes "0 < period" "period < length klines"
  shows "(snd (rsi_averages klines period) = 0 \<longrightarrow> calculateRSI klines period = 100) \<and>
         (strictlyIncreasing klines \<longrightarrow> calculateRSI klines period = 100) \<and>
         (flatCloses klines \<longrightarrow> calculateRSI klines period = 100) \<and>
         (snd (rsi_averages klines period) \<noteq> 0 \<longrightarrow>
            calculateRSI klines period =
              100 - 100 / (1 + fst (rsi_averages klines period) / snd (rsi_averages klines period)) \<and>
            0 \<le> calculateRSI klines period \<and> calculateRSI klines period \<le> 100) \<and>
         (length klines = period + 1 \<longrightarrow>
            rsi_averages klines period =
              (sum_list (map (\<lambda>i. max (Close (klines ! (i + 1)) - Close (klines ! i)) 0)
                           [0 ..< period]) / real period,
               sum_list (map (\<lambda>i. max (- (Close (klines ! (i + 1)) - Close (klines ! i))) 0)
                           [0 ..< period]) / real period)) \<and>
         rsi_averages (klines @ [k]) period =
           (if Close k - Close (last klines) > 0
            then ((fst (rsi_averages klines period) * (real period - 1) +
                     (Close k - Close (last klines))) / real period,
                  (snd (rsi_averages klines period) * (real period - 1)) / real period)
            else ((fst (rsi_averages klines period) * (real period - 1)) / real period,
                  (snd (rsi_averages klines period) * (real period - 1) +
                     (Close (last klines) - Close k)) / real period))"
proof -
  let ?g = "fst (rsi_averages klines period)" and ?l = "snd (rsi_averages klines period)"
  have nn: "0 \<le> ?g" "0 \<le> ?l" using rsi_averages_nonneg[OF assms(1)] by simp_all
  have zero: "calculateRSI klines period = 100" if "?l = 0"
    using that assms(2) by (simp add: calculateRSI_def)
  have inc: "calculateRSI klines period = 100" if "strictlyIncreasing klines"
    using zero rsi_averages_no_loss[of klines period] changes_nonneg_incr[OF that] by blast
  have flat: "calculateRSI klines period = 100" if "flatCloses klines"
    using zero rsi_averages_no_loss[of klines period] changes_nonneg_flat[OF that] by blast
  have gen: "calculateRSI klines period = 100 - 100 / (1 + ?g / ?l) \<and>
             0 \<le> calculateRSI klines period \<and> calculateRSI klines period \<le> 100" if "?l \<noteq> 0"
  proof -
    have eq: "calculateRSI klines period = 100 - 100 / (1 + ?g / ?l)"
      using that assms(2) by (simp add: calculateRSI_def Let_def)
    have lpos: "0 < ?l" using nn that by simp
    have "0 \<le> ?g / ?l" using nn lpos by simp
    then have one: "1 \<le> 1 + ?g / ?l" by simp
    then have "100 / (1 + ?g / ?l) \<le> 100" by (simp add: divide_le_eq)
    moreover have "0 \<le> 100 / (1 + ?g / ?l)" using one by simp
    ultimately show ?thesis using eq by simp
  qed
  have step: "rsi_averages (klines @ [k]) period =
           (if Close k - Close (last klines) > 0
            then ((?g * (real period - 1) + (Close k - Close (last klines))) / real period,
                  (?l * (real period - 1)) / real period)
            else ((?g * (real period - 1)) / real period,
                  (?l * (real period - 1) + (Close (last klines) - Close k)) / real period))"
    unfolding rsi_averages_snoc[OF assms(2)] by (simp add: rsi_wilder_step_def)
  show ?thesis using zero inc flat gen rsi_averages_initial[of klines period] step by blast
qed

theorem rsi_values_witness:
  "calculateRSI (map flatKline [1, 2, 3]) 2 = 100 \<and>
   calculateRSI (map flatKline [5, 5, 5]) 2 = 100 \<and>
   snd (rsi_averages (map flatKline [1, 3, 2]) 2) \<noteq> 0 \<and>
   calculateRSI (map flatKline [1, 3, 2]) 2 = 100 - 100 / (1 + 1 / (1 / 2)) \<and>
   0 \<le> calculateRSI (map flatKline [1, 3, 2]) 2 \<and>
   calculateRSI (map flatKline [1, 3, 2]) 2 \<le> 100 \<and>
   rsi_averages (map flatKline [1, 2, 3]) 2 = (1, 0) \<and>
   rsi_averages (map flatKline [1, 2, 3] @ [flatKline 2]) 2 = (1 / 2, 1 / 2) \<and>
   calculateRSI (map flatKline [1, 2, 3] @ [flatKline 2]) 2 = 50"
proof -
  have i: "strictlyIncreasing (map flatKline [1, 2, 3])"
    by (simp add: strictlyIncreasing_def flatKline_def upt_rec)
  have f: "flatCloses (map flatKline [5, 5, 5])"
    by (simp add: flatCloses_def flatKline_def upt_rec)
  have a: "rsi_averages (map flatKline [1, 3, 2]) 2 = (1, 1 / 2)"
    by (simp add: rsi_averages_def closeChanges_def rsi_sum_step_def rsi_wilder_step_def
        flatKline_def upt_rec)
  note t3 = rsi_values[of 2 "map flatKline [1, 2, 3]" "flatKline 2"]
  have init: "rsi_averages (map flatKline [1, 2, 3]) 2 = (1, 0)"
    using t3 by (simp add: flatKline_def upt_rec)
  have step: "rsi_averages (map flatKline [1, 2, 3] @ [flatKline 2]) 2 = (1 / 2, 1 / 2)"
    using t3 init by (simp add: flatKline_def)
  have r50: "calculateRSI (map flatKline [1, 2, 3] @ [flatKline 2]) 2 = 50"
    using rsi_values[of 2 "map flatKline [1, 2, 3] @ [flatKline 2]" "flatKline 2"] step
    by simp
  have "calculateRSI (map flatKline [1, 2, 3]) 2 = 100 \<and>
   calculateRSI (map flatKline [5, 5, 5]) 2 = 100 \<and>
   snd (rsi_averages (map flatKline [1, 3, 2]) 2) \<noteq> 0 \<and>
   calculateRSI (map flatKline [1, 3, 2]) 2 = 100 - 100 / (1 + 1 / (1 / 2)) \<and>
   0 \<le> calculateRSI (map flatKline [1, 3, 2]) 2 \<and>
   calculateRSI (map flatKline [1, 3, 2]) 2 \<le> 100"
    using t3 rsi_values[of 2 "map flatKline [5, 5, 5]"]
      rsi_values[of 2 "map flatKline [1, 3, 2]"] i f a
    by simp
  then show ?thesis using init step r50 by simp
qed

section \<open>Extrema keep three candles from either end\<close>

lemma minima_step_index:
  "(\<forall>p\<in>set acc. P (Index p)) \<Longrightarrow> P i \<Longrightarrow> \<forall>p\<in>set (minima_step ks acc i). P (Index p)"
  by (simp add: minima_step_def Let_def)

lemma foldl_minima_index:
  "(\<forall>p\<in>set acc. P (Index p)) \<Longrightarrow> (\<forall>i\<in>set js. P i) \<Longrightarrow>
   \<forall>p\<in>set (foldl (minima_step ks) acc js). P (Index p)"
proof (induction js arbitrary: acc)
  case Nil then show ?case by simp
next
  case (Cons j js)
  have "\<forall>p\<in>set (minima_step ks acc j). P (Index p)"
    using Cons.prems by (intro minima_step_index) simp_all
  then have "\<forall>p\<in>set (foldl (minima_step ks) (minima_step ks acc j) js). P (Index p)"
    using Cons.prems(2) by (intro Cons.IH) simp_all
  then show ?case by simp
qed

lemma maxima_step_index:
  "(\<forall>p\<in>set acc. P (Index p)) \<Longrightarrow> P i \<Longrightarrow> \<forall>p\<in>set (maxima_step ks acc i). P (Index p)"
  by (simp add: maxima_step_def Let_def)

lemma foldl_maxima_index:
  "(\<forall>p\<in>set acc. P (Index p)) \<Longrightarrow> (\<forall>i\<in>set js. P i) \<Longrightarrow>
   \<forall>p\<in>set (foldl (maxima_step ks) acc js). P (Index p)"
proof (induction js arbitrary: acc)
  case Nil then show ?case by simp
next
  case (Cons j js)
  have "\<forall>p\<in>set (maxima_step ks acc j). P (Index p)"
    using Cons.prems by (intro maxima_step_index) simp_all
  then have "\<forall>p\<in>set (foldl (maxima_step ks) (maxima_step ks acc j) js). P (Index p)"
    using Cons.prems(2) by (intro Cons.IH) simp_all
  then show ?case by simp
qed

lemma findLocalMinima_index:
  "p \<in> set (findLocalMinima ks) \<Longrightarrow> 3 \<le> Index p \<and> Index p + 3 < length ks"
proof -
  assume a: "p \<in> set (findLocalMinima ks)"
  have "\<forall>p\<in>set (foldl (minima_step ks) [] [3 ..< length ks - 3]).
          3 \<le> Index p \<and> Index p + 3 < length ks"
    by (rule foldl_minima_index) auto
  with a show ?thesis by (auto simp: findLocalMinima_def split: if_splits)
qed

lemma findLocalMaxima_index:
  "p \<in> set (findLocalMaxima ks) \<Longrightarrow> 3 \<le> Index p \<and> Index p + 3 < length ks"
proof -
  assume a: "p \<in> set (findLocalMaxima ks)"
  have "\<forall>p\<in>set (foldl (maxima_step ks) [] [3 ..< length ks - 3]).
          3 \<le> Index p \<and> Index p + 3 < length ks"
    by (rule foldl_maxima_index) auto
  with a show ?thesis by (auto simp: findLocalMaxima_def split: if_splits)
qed

lemma findLocalMinima_short: "length ks < 7 \<Longrightarrow> findLocalMinima ks = []"
  by (simp add: findLocalMinima_def)

lemma findLocalMaxima_short: "length ks < 7 \<Longrightarrow> findLocalMaxima ks = []"
  by (simp add: findLocalMaxima_def)

lemma foldl_keep: "foldl (\<lambda>st ic. st) stats ics = stats"
  by (induction ics) simp_all

lemma scanTouches_no_points: "scanTouches touch recent [] stats = stats"
  by (simp add: scanTouches_def foldl_keep)

lemma collectLevels_no_points: "collectLevels b cp stats [] = []"
  by (simp add: collectLevels_def)

lemma mergeNearbyLevels_Nil: "mergeNearbyLevels [] tol = []"
  by (simp add: mergeNearbyLevels_def sortSliceStable_def)

lemma updateLevelDistances_Nil: "updateLevelDistances [] cp b = []"
  by (simp add: updateLevelDistances_def)

lemma sortAndFilterLevels_Nil: "sortAndFilterLevels [] b = []"
  by (simp add: sortAndFilterLevels_def)

text \<open>
  C10. When the lookback window (the last \<open>lookback\<close> candles) holds fewer than 7
  candles, \<open>calculateSupportResistanceLevels\<close> returns empty support and resistance
  lists: \<open>findLocalMinima\<close> and \<open>findLocalMaxima\<close> only report extrema at indices
  \<open>i\<close> with \<open>3 \<le> i < len - 3\<close>.
\<close>

theorem short_window_has_no_levels:
  "(min (length klines) lookback < 7 \<longrightarrow> calculateSupportResistanceLevels klines lookback = ([], [])) \<and>
   (\<forall>p \<in> set (findLocalMinima klines). 3 \<le> Index p \<and> Index p + 3 < length klines) \<and>
   (\<forall>p \<in> set (findLocalMaxima klines). 3 \<le> Index p \<and> Index p + 3 < length klines)"
proof -
  have "calculateSupportResistanceLevels klines lookback = ([], [])"
    if h: "min (length klines) lookback < 7"
  proof -
    let ?recent = "drop (length klines - lookback) klines"
    have "length ?recent = min (length klines) lookback" by auto
    then have short: "length ?recent < 7" using h by simp
    show ?thesis
      unfolding calculateSupportResistanceLevels_def Let_def
      by (simp add: findLocalMinima_short[OF short] findLocalMaxima_short[OF short]
          collectLevels_no_points mergeNearbyLevels_Nil updateLevelDistances_Nil
          sortAndFilterLevels_Nil)
  qed
  then show ?thesis using findLocalMinima_index findLocalMaxima_index by blast
qed

theorem short_window_has_no_levels_witness:
  "min (length (map flatKline [1, 2, 3, 4, 5, 6])) 120 < 7 \<and>
   calculateSupportResistanceLevels (map flatKline [1, 2, 3, 4, 5, 6]) 120 = ([], []) \<and>
   findLocalMinima (map flatKline [5, 5, 5, 5, 5, 5, 5]) =
     [\<lparr>levelPoint.Price = 5, Index = 3\<rparr>] \<and>
   3 \<le> Index \<lparr>levelPoint.Price = 5, Index = 3\<rparr> \<and>
   Index \<lparr>levelPoint.Price = 5, Index = 3\<rparr> + 3 < length (map flatKline [5, 5, 5, 5, 5, 5, 5 :: real])"
proof -
  have m: "findLocalMinima (map flatKline [5, 5, 5, 5, 5, 5, 5]) =
     [\<lparr>levelPoint.Price = 5, Index = 3\<rparr>]"
    by code_simp
  show ?thesis
    using short_window_has_no_levels[of "map flatKline [1, 2, 3, 4, 5, 6]" 120]
      short_window_has_no_levels[of "map flatKline [5, 5, 5, 5, 5, 5, 5]" 120] m
    by simp
qed

section \<open>Ranking and display order\<close>

lemma insertBy_insort_key:
  fixes f :: "'a \<Rightarrow> 'k::linorder"
  assumes "\<And>x y. lt x y \<longleftrightarrow> f x < f y"
  shows "insertBy lt x ys = insort_key f x ys"
  by (induction ys) (auto simp: assms)

lemma sortSliceStable_sort_key:
  fixes f :: "'a \<Rightarrow> 'k::linorder"
  assumes "\<And>x y. lt x y \<longleftrightarrow> f x < f y"
  shows "sortSliceStable lt xs = sort_key f xs"
proof -
  have "insertBy lt = insort_key f"
    using insertBy_insort_key[of lt f, OF assms] by (intro ext) 
  then show ?thesis by (simp add: sortSliceStable_def sort_key_def)
qed

lemma rankLess_key: "rankLess b x y \<longleftrightarrow> rankKey b x < rankKey b y"
  by (auto simp: rankLess_def rankKey_def less_prod_def)

lemma displayLess_key: "displayLess b x y \<longleftrightarrow> displayKey b x < displayKey b y"
  by (auto simp: displayLess_def displayKey_def less_prod_def)

lemma sorted_map_key_wrt:
  fixes f :: "'a \<Rightarrow> 'k::linorder"
  assumes "\<And>x y. lt x y \<longleftrightarrow> f x < f y"
  shows "sorted (map f xs) \<longleftrightarrow> sorted_wrt (\<lambda>x y. \<not> lt y x) xs"
  by (simp add: sorted_map assms not_less)

lemma sortSliceStable_sorted:
  fixes f :: "'a \<Rightarrow> 'k::linorder"
  assumes "\<And>x y. lt x y \<longleftrightarrow> f x < f y"
  shows "sorted_wrt (\<lambda>x y. \<not> lt y x) (sortSliceStable lt xs)"
proof -
  have "sorted (map f (sort_key f xs))" by (rule sorted_sort_key)
  then have "sorted_wrt (\<lambda>x y. \<not> lt y x) (sort_key f xs)"
    by (simp only: sorted_map_key_wrt[of lt f, OF assms])
  then show ?thesis by (simp only: sortSliceStable_sort_key[of lt f, OF assms])
qed

lemma sortSliceStable_mset:
  fixes f :: "'a \<Rightarrow> 'k::linorder"
  assumes "\<And>x y. lt x y \<longleftrightarrow> f x < f y"
  shows "mset (sortSliceStable lt xs) = mset xs"
  by (simp add: sortSliceStable_sort_key[of lt f, OF assms])

lemma insertBy_length: "length (insertBy lt x ys) = Suc (length ys)"
  by (induction ys) simp_all

lemma sortSliceStable_length: "length (sortSliceStable lt xs) = length xs"
  by (induction xs) (simp_all add: sortSliceStable_def insertBy_length)

lemma insertBy_set: "set (insertBy lt x ys) = insert x (set ys)"
  by (induction ys) auto

lemma sortSliceStable_set: "set (sortSliceStable lt xs) = set xs"
  by (induction xs) (simp_all add: sortSliceStable_def insertBy_set)

lemma sortAndFilterLevels_eq:
  "sortAndFilterLevels lvls b =
     sortSliceStable (displayLess b) (take 5 (sortSliceStable (rankLess b) lvls))"
  by (simp add: sortAndFilterLevels_def Let_def sortSliceStable_length sortSliceStable_def)

lemma sortAndFilterLevels_length: "length (sortAndFilterLevels lvls b) \<le> 5"
  by (simp add: sortAndFilterLevels_eq sortSliceStable_length)

lemma sortAndFilterLevels_subset: "set (sortAndFilterLevels lvls b) \<subseteq> set lvls"
  using set_take_subset[of 5 "sortSliceStable (rankLess b) lvls"]
  by (simp add: sortAndFilterLevels_eq sortSliceStable_set)

lemma sortAndFilterLevels_small:
  "length lvls \<le> 5 \<Longrightarrow> mset (sortAndFilterLevels lvls b) = mset lvls"
  by (simp add: sortAndFilterLevels_eq sortSliceStable_length
      sortSliceStable_mset[of "displayLess b" "displayKey b", OF displayLess_key]
      sortSliceStable_mset[of "rankLess b" "rankKey b", OF rankLess_key])

lemma display_sorted_distance:
  "sorted_wrt (\<lambda>x y. \<not> displayLess b y x) xs \<Longrightarrow> sorted_wrt (\<lambda>x y. Distance x \<le> Distance y) xs"
proof (rule sorted_wrt_mono_rel[rotated], assumption)
  fix x y assume "\<not> displayLess b y x"
  then show "Distance x \<le> Distance y"
    by (cases "Distance y = Distance x") (simp_all add: displayLess_def)
qed

text \<open>
  C5. \<open>sortAndFilterLevels\<close> returns at most 5 levels. They are the first 5 of the input
  in ranking order: score descending, then strength descending, then distance ascending,
  then the higher price for supports and the lower price for resistances. The kept levels
  are then sorted again by distance ascending with the same price tie-break, so the result
  is ascending in distance.
\<close>

theorem ranking_and_display_order:
  "length (sortAndFilterLevels lvls b) \<le> 5 \<and>
   sortAndFilterLevels lvls b =
     sortSliceStable (displayLess b) (take 5 (sortSliceStable (rankLess b) lvls)) \<and>
   mset (sortSliceStable (rankLess b) lvls) = mset lvls \<and>
   sorted_wrt (\<lambda>x y. \<not> rankLess b y x) (sortSliceStable (rankLess b) lvls) \<and>
   (rankLess b x y \<longleftrightarrow>
      Score x > Score y \<or>
      Score x = Score y \<and>
        (Strength x > Strength y \<or>
         Strength x = Strength y \<and>
           (Distance x < Distance y \<or>
            Distance x = Distance y \<and> (if b then Price x > Price y else Price x < Price y)))) \<and>
   mset (sortAndFilterLevels lvls b) = mset (take 5 (sortSliceStable (rankLess b) lvls)) \<and>
   sorted_wrt (\<lambda>x y. \<not> displayLess b y x) (sortAndFilterLevels lvls b) \<and>
   sorted_wrt (\<lambda>x y. Distance x \<le> Distance y) (sortAndFilterLevels lvls b) \<and>
   (displayLess b x y \<longleftrightarrow>
      Distance x < Distance y \<or>
      Distance x = Distance y \<and> (if b then Price x > Price y else Price x < Price y))"
proof -
  have d: "sorted_wrt (\<lambda>x y. \<not> displayLess b y x) (sortAndFilterLevels lvls b)"
    unfolding sortAndFilterLevels_eq
    by (rule sortSliceStable_sorted[of "displayLess b" "displayKey b", OF displayLess_key])
  have r: "rankLess b x y \<longleftrightarrow>
      Score x > Score y \<or>
      Score x = Score y \<and>
        (Strength x > Strength y \<or>
         Strength x = Strength y \<and>
           (Distance x < Distance y \<or>
            Distance x = Distance y \<and> (if b then Price x > Price y else Price x < Price y)))"
    by (auto simp: rankLess_def)
  have dl: "displayLess b x y \<longleftrightarrow>
      Distance x < Distance y \<or>
      Distance x = Distance y \<and> (if b then Price x > Price y else Price x < Price y)"
    by (auto simp: displayLess_def)
  have m: "mset (sortAndFilterLevels lvls b) = mset (take 5 (sortSliceStable (rankLess b) lvls))"
    unfolding sortAndFilterLevels_eq
    by (rule sortSliceStable_mset[of "displayLess b" "displayKey b", OF displayLess_key])
  show ?thesis
    using sortAndFilterLevels_length[of lvls b] sortAndFilterLevels_eq[of lvls b]
      sortSliceStable_mset[of "rankLess b" "rankKey b" lvls, OF rankLess_key]
      sortSliceStable_sorted[of "rankLess b" "rankKey b" lvls, OF rankLess_key]
      d display_sorted_distance[OF d] r dl m
    by blast
qed

theorem ranking_and_display_order_witness:
  "sortSliceStable (rankLess True)
     [\<lparr>Price = 95, Strength = 1, Distance = 5, Score = 1, IsSupport = True\<rparr>,
      \<lparr>Price = 90, Strength = 2, Distance = 10, Score = 2, IsSupport = True\<rparr>] =
     [\<lparr>Price = 90, Strength = 2, Distance = 10, Score = 2, IsSupport = True\<rparr>,
      \<lparr>Price = 95, Strength = 1, Distance = 5, Score = 1, IsSupport = True\<rparr>] \<and>
   sortAndFilterLevels
     [\<lparr>Price = 95, Strength = 1, Distance = 5, Score = 1, IsSupport = True\<rparr>,
      \<lparr>Price = 90, Strength = 2, Distance = 10, Score = 2, IsSupport = True\<rparr>] True =
     [\<lparr>Price = 95, Strength = 1, Distance = 5, Score = 1, IsSupport = True\<rparr>,
      \<lparr>Price = 90, Strength = 2, Distance = 10, Score = 2, IsSupport = True\<rparr>] \<and>
   length (sortAndFilterLevels
     (replicate 7 \<lparr>Price = 95, Strength = 1, Distance = 5, Score = 1, IsSupport = True\<rparr>)
     True) \<le> 5"
proof -
  have r: "sortSliceStable (rankLess True)
     [\<lparr>Price = 95, Strength = 1, Distance = 5, Score = 1, IsSupport = True\<rparr>,
      \<lparr>Price = 90, Strength = 2, Distance = 10, Score = 2, IsSupport = True\<rparr>] =
     [\<lparr>Price = 90, Strength = 2, Distance = 10, Score = 2, IsSupport = True\<rparr>,
      \<lparr>Price = 95, Strength = 1, Distance = 5, Score = 1, IsSupport = True\<rparr>]"
    by (simp add: sortSliceStable_def rankLess_def)
  have d: "sortAndFilterLevels
     [\<lparr>Price = 95, Strength = 1, Distance = 5, Score = 1, IsSupport = True\<rparr>,
      \<lparr>Price = 90, Strength = 2, Distance = 10, Score = 2, IsSupport = True\<rparr>] True =
     sortSliceStable (displayLess True) (take 5 (sortSliceStable (rankLess True)
     [\<lparr>Price = 95, Strength = 1, Distance = 5, Score = 1, IsSupport = True\<rparr>,
      \<lparr>Price = 90, Strength = 2, Distance = 10, Score = 2, IsSupport = True\<rparr>]))"
    using ranking_and_display_order
            [of "[\<lparr>Price = 95, Strength = 1, Distance = 5, Score = 1, IsSupport = True\<rparr>,
                  \<lparr>Price = 90, Strength = 2, Distance = 10, Score = 2, IsSupport = True\<rparr>]"
                True]
    by blast
  have l: "length (sortAndFilterLevels
     (replicate 7 \<lparr>Price = 95, Strength = 1, Distance = 5, Score = 1, IsSupport = True\<rparr>)
     True) \<le> 5"
    using ranking_and_display_order
            [of "replicate 7 \<lparr>Price = 95, Strength = 1, Distance = 5, Score = 1, IsSupport = True\<rparr>"
                True]
    by blast
  have "sortSliceStable (displayLess True)
     [\<lparr>Price = 90, Strength = 2, Distance = 10, Score = 2, IsSupport = True\<rparr>,
      \<lparr>Price = 95, Strength = 1, Distance = 5, Score = 1, IsSupport = True\<rparr>] =
     [\<lparr>Price = 95, Strength = 1, Distance = 5, Score = 1, IsSupport = True\<rparr>,
      \<lparr>Price = 90, Strength = 2, Distance = 10, Score = 2, IsSupport = True\<rparr>]"
    by (simp add: sortSliceStable_def displayLess_def)
  then show ?thesis using r d l by simp
qed

section \<open>Levels stay on their side of the price\<close>

lemma weighted_below:
  fixes p q s t P :: real
  assumes "0 < s" "0 < t" "p < P" "q < P"
  shows "(p * s + q * t) / (s + t) < P"
proof -
  have "p * s < P * s" "q * t < P * t" using assms by simp_all
  then have "p * s + q * t < P * (s + t)" by (simp add: algebra_simps)
  then show ?thesis using assms(1,2) by (simp add: pos_divide_less_eq)
qed

lemma weighted_above:
  fixes p q s t P :: real
  assumes "0 < s" "0 < t" "P < p" "P < q"
  shows "P < (p * s + q * t) / (s + t)"
proof -
  have "P * s < p * s" "P * t < q * t" using assms by simp_all
  then have "P * (s + t) < p * s + q * t" by (simp add: algebra_simps)
  then show ?thesis using assms(1,2) by (simp add: pos_less_divide_eq)
qed

lemma mergeInto_positive:
  assumes "0 < Score c" "0 < Score l"
  shows "mergeInto c l = c\<lparr>Price := (Price c * Score c + Price l * Score l) / (Score c + Score l),
                            Strength := Strength c + Strength l,
                            Score := Score c + Score l\<rparr>"
proof -
  have "\<not> Score c + Score l \<le> 0" using assms by simp
  then show ?thesis by (simp add: mergeInto_def Let_def)
qed

lemma mergeInto_onSide:
  assumes "onSide b P c" "onSide b P l"
  shows "onSide b P (mergeInto c l)"
proof -
  have s: "0 < Score c" "0 < Score l" using assms by (simp_all add: onSide_def)
  show ?thesis
  proof (cases b)
    case True
    then have "Price c < P" "Price l < P" using assms by (simp_all add: onSide_def)
    then have "(Price c * Score c + Price l * Score l) / (Score c + Score l) < P"
      using s by (intro weighted_below)
    then show ?thesis using True s assms(1) by (simp add: mergeInto_positive[OF s] onSide_def)
  next
    case False
    then have "P < Price c" "P < Price l" using assms by (simp_all add: onSide_def)
    then have "P < (Price c * Score c + Price l * Score l) / (Score c + Score l)"
      using s by (intro weighted_above)
    then show ?thesis using False s assms(1) by (simp add: mergeInto_positive[OF s] onSide_def)
  qed
qed

lemma onSide_Distance: "onSide b P (l\<lparr>Distance := d\<rparr>) = onSide b P l"
  by (simp add: onSide_def)

lemma mergeRun_onSide:
  "onSide b P c \<Longrightarrow> (\<forall>l\<in>set ls. onSide b P l) \<Longrightarrow>
   \<forall>l\<in>set (mergeRun tol c ls). onSide b P l"
proof (induction ls arbitrary: c)
  case Nil then show ?case by simp
next
  case (Cons x xs)
  have x: "onSide b P x" and xs: "\<forall>l\<in>set xs. onSide b P l" using Cons.prems(2) by simp_all
  show ?case
  proof (cases "withinMergeTolerance tol c x")
    case True
    have "onSide b P (mergeInto c x)" using Cons.prems(1) x by (rule mergeInto_onSide)
    then have "\<forall>l\<in>set (mergeRun tol (mergeInto c x) xs). onSide b P l"
      using xs by (rule Cons.IH)
    then show ?thesis using True by simp
  next
    case False
    have "onSide b P (x\<lparr>Distance := 0\<rparr>)" using x by (simp add: onSide_Distance)
    then have "\<forall>l\<in>set (mergeRun tol (x\<lparr>Distance := 0\<rparr>) xs). onSide b P l"
      using xs by (rule Cons.IH)
    then show ?thesis using False Cons.prems(1) by simp
  qed
qed

lemma mergeNearbyLevels_onSide:
  assumes "\<forall>l\<in>set ls. onSide b P l"
  shows "\<forall>l\<in>set (mergeNearbyLevels ls tol). onSide b P l"
proof (cases "sortSliceStable (\<lambda>a b. Price a < Price b) ls")
  case Nil
  then show ?thesis by (simp add: mergeNearbyLevels_def)
next
  case (Cons x xs)
  have "set (x # xs) = set ls" using sortSliceStable_set[of "\<lambda>a b. Price a < Price b" ls] Cons by simp
  then have x: "onSide b P x" and xs: "\<forall>l\<in>set xs. onSide b P l" using assms by auto
  have "onSide b P (x\<lparr>Distance := 0\<rparr>)" using x by (simp add: onSide_Distance)
  then have "\<forall>l\<in>set (mergeRun tol (x\<lparr>Distance := 0\<rparr>) xs). onSide b P l"
    using xs by (rule mergeRun_onSide)
  then show ?thesis using Cons by (simp add: mergeNearbyLevels_def)
qed

lemma updateLevelDistances_onSide:
  assumes "\<forall>l\<in>set ls. onSide b P l"
  shows "\<forall>l\<in>set (updateLevelDistances ls cp s). onSide b P l"
  using assms by (auto simp: updateLevelDistances_def onSide_Distance)

lemma updateLevelDistances_length: "length (updateLevelDistances ls cp s) = length ls"
  by (simp add: updateLevelDistances_def)

lemma calcRecencyWeight_pos: "0 < calcRecencyWeight n i"
proof -
  have "0 \<le> real j / real (n - 1)" for j by simp
  then show ?thesis
    by (simp add: calcRecencyWeight_def Let_def add_pos_nonneg)
qed

lemma foldl_invariant:
  "P a \<Longrightarrow> (\<And>a x. P a \<Longrightarrow> P (f a x)) \<Longrightarrow> P (foldl f a xs)"
  by (induction xs arbitrary: a) simp_all

lemma statsPositive_upd:
  "statsPositive stats \<Longrightarrow> 0 < levelStats.weight st \<Longrightarrow> statsPositive (stats(k \<mapsto> st))"
  by (simp add: statsPositive_def)

lemma initStats_positive: "statsPositive (initStats n points)"
  unfolding initStats_def
proof (rule foldl_invariant[where P = statsPositive])
  show "statsPositive Map.empty" by (simp add: statsPositive_def)
next
  fix a :: "nat \<rightharpoonup> levelStats" and x :: levelPoint
  assume "statsPositive a"
  then show "statsPositive (a(Index x \<mapsto> \<lparr>touches = 1, levelStats.weight = calcRecencyWeight n (Index x)\<rparr>))"
    by (rule statsPositive_upd) (simp add: calcRecencyWeight_pos)
qed

lemma addTouch_positive: "0 < levelStats.weight st \<Longrightarrow> 0 < levelStats.weight (addTouch n idx st)"
  using calcRecencyWeight_pos[of n idx] by (simp add: addTouch_def)

lemma touchSupport_positive:
  assumes "statsPositive stats"
  shows "statsPositive (touchSupport n idx candle stats point)"
proof (cases "stats (Index point)")
  case None
  then show ?thesis using assms by (simp add: touchSupport_def)
next
  case (Some st)
  then have "0 < levelStats.weight st" using assms by (simp add: statsPositive_def)
  then have "statsPositive (stats(Index point \<mapsto> addTouch n idx st))"
    using assms by (intro statsPositive_upd addTouch_positive)
  then show ?thesis using Some assms by (simp add: touchSupport_def)
qed

lemma touchResistance_positive:
  assumes "statsPositive stats"
  shows "statsPositive (touchResistance n idx candle stats point)"
proof (cases "stats (Index point)")
  case None
  then show ?thesis using assms by (simp add: touchResistance_def)
next
  case (Some st)
  then have "0 < levelStats.weight st" using assms by (simp add: statsPositive_def)
  then have "statsPositive (stats(Index point \<mapsto> addTouch n idx st))"
    using assms by (intro statsPositive_upd addTouch_positive)
  then show ?thesis using Some assms by (simp add: touchResistance_def)
qed

lemma scanTouches_positive:
  assumes "\<And>idx candle stats point. statsPositive stats \<Longrightarrow> statsPositive (touch idx candle stats point)"
    and "statsPositive stats"
  shows "statsPositive (scanTouches touch recent points stats)"
  unfolding scanTouches_def
proof (rule foldl_invariant[where P = statsPositive])
  show "statsPositive stats" by (rule assms(2))
next
  fix a :: "nat \<rightharpoonup> levelStats" and x :: "nat \<times> Kline"
  assume "statsPositive a"
  then show "statsPositive (foldl (touch (fst x) (snd x)) a points)"
    by (rule foldl_invariant[where P = statsPositive]) (rule assms(1))
qed

lemma collectLevels_onSide:
  assumes "statsPositive stats"
  shows "\<forall>l\<in>set (collectLevels b cp stats points). onSide b cp l"
  unfolding collectLevels_def
proof (rule foldl_invariant[where P = "\<lambda>acc. \<forall>l\<in>set acc. onSide b cp l"])
  show "\<forall>l\<in>set []. onSide b cp l" by simp
next
  fix acc :: "SupportResistanceLevel list" and point :: levelPoint
  assume a: "\<forall>l\<in>set acc. onSide b cp l"
  show "\<forall>l\<in>set (case stats (Index point) of None \<Rightarrow> acc
          | Some st \<Rightarrow> if (if b then levelPoint.Price point < cp else levelPoint.Price point > cp)
               then acc @ [\<lparr>Price = levelPoint.Price point, Strength = touches st,
                               Distance = 0, Score = levelStats.weight st, IsSupport = b\<rparr>]
               else acc). onSide b cp l"
  proof (cases "stats (Index point)")
    case None
    then show ?thesis using a by simp
  next
    case (Some st)
    then have "0 < levelStats.weight st" using assms by (simp add: statsPositive_def)
    then show ?thesis using a Some by (simp add: onSide_def)
  qed
qed

lemma levels_onSide:
  "(\<forall>l\<in>set (fst (calculateSupportResistanceLevels klines lookback)). onSide True (Close (last klines)) l) \<and>
   (\<forall>l\<in>set (snd (calculateSupportResistanceLevels klines lookback)). onSide False (Close (last klines)) l)"
proof (cases "length klines = 0 \<or> length (drop (length klines - lookback) klines) = 0")
  case True
  then show ?thesis by (auto simp: calculateSupportResistanceLevels_def Let_def)
next
  case False
  let ?recent = "drop (length klines - lookback) klines"
  let ?n = "length ?recent"
  let ?cp = "Close (last ?recent)"
  let ?mins = "findLocalMinima ?recent"
  let ?maxs = "findLocalMaxima ?recent"
  let ?ss = "scanTouches (touchSupport ?n) ?recent ?mins (initStats ?n ?mins)"
  let ?rs = "scanTouches (touchResistance ?n) ?recent ?maxs (initStats ?n ?maxs)"
  have ne: "?recent \<noteq> []" using False by simp
  then have cp: "?cp = Close (last klines)" by (simp add: last_drop)
  have "statsPositive ?ss"
    by (rule scanTouches_positive) (simp_all add: touchSupport_positive initStats_positive)
  then have "\<forall>l\<in>set (collectLevels True ?cp ?ss ?mins). onSide True ?cp l"
    by (rule collectLevels_onSide)
  then have "\<forall>l\<in>set (mergeNearbyLevels (collectLevels True ?cp ?ss ?mins) 0.002). onSide True ?cp l"
    by (rule mergeNearbyLevels_onSide)
  then have "\<forall>l\<in>set (updateLevelDistances (mergeNearbyLevels (collectLevels True ?cp ?ss ?mins) 0.002) ?cp True). onSide True ?cp l"
    by (rule updateLevelDistances_onSide)
  then have s: "\<forall>l\<in>set (sortAndFilterLevels (updateLevelDistances (mergeNearbyLevels (collectLevels True ?cp ?ss ?mins) 0.002) ?cp True) True). onSide True ?cp l"
    using sortAndFilterLevels_subset by blast
  have "statsPositive ?rs"
    by (rule scanTouches_positive) (simp_all add: touchResistance_positive initStats_positive)
  then have "\<forall>l\<in>set (collectLevels False ?cp ?rs ?maxs). onSide False ?cp l"
    by (rule collectLevels_onSide)
  then have "\<forall>l\<in>set (mergeNearbyLevels (collectLevels False ?cp ?rs ?maxs) 0.002). onSide False ?cp l"
    by (rule mergeNearbyLevels_onSide)
  then have "\<forall>l\<in>set (updateLevelDistances (mergeNearbyLevels (collectLevels False ?cp ?rs ?maxs) 0.002) ?cp False). onSide False ?cp l"
    by (rule updateLevelDistances_onSide)
  then have r: "\<forall>l\<in>set (sortAndFilterLevels (updateLevelDistances (mergeNearbyLevels (collectLevels False ?cp ?rs ?maxs) 0.002) ?cp False) False). onSide False ?cp l"
    using sortAndFilterLevels_subset by blast
  have eq: "calculateSupportResistanceLevels klines lookback =
     (sortAndFilterLevels (updateLevelDistances (mergeNearbyLevels (collectLevels True ?cp ?ss ?mins) 0.002) ?cp True) True,
      sortAndFilterLevels (updateLevelDistances (mergeNearbyLevels (collectLevels False ?cp ?rs ?maxs) 0.002) ?cp False) False)"
    using False unfolding calculateSupportResistanceLevels_def Let_def by simp
  show ?thesis unfolding eq fst_conv snd_conv using s r cp by simp
qed

lemma onSide_correctSide: "onSide b P l \<Longrightarrow> IsSupport l = b \<and> correctSide P l"
  by (auto simp: onSide_def correctSide_def)

lemma updateLevelDistances_price:
  "l \<in> set (updateLevelDistances ls cp s) \<Longrightarrow>
   \<exists>l0\<in>set ls. Price l = Price l0 \<and> IsSupport l = IsSupport l0 \<and> Score l = Score l0 \<and> Strength l = Strength l0"
  by (auto simp: updateLevelDistances_def split: if_splits)

lemma entry_of_levels:
  "entryOnSide (Close (last ks))
     \<lparr>Supports = updateLevelDistances (fst (calculateSupportResistanceLevels ks lb)) p True,
      Resistances = updateLevelDistances (snd (calculateSupportResistanceLevels ks lb)) q False\<rparr>"
proof -
  have s: "\<forall>l\<in>set (updateLevelDistances (fst (calculateSupportResistanceLevels ks lb)) p True).
             onSide True (Close (last ks)) l"
    using levels_onSide[of ks lb] by (intro updateLevelDistances_onSide) simp
  have r: "\<forall>l\<in>set (updateLevelDistances (snd (calculateSupportResistanceLevels ks lb)) q False).
             onSide False (Close (last ks)) l"
    using levels_onSide[of ks lb] by (intro updateLevelDistances_onSide) simp
  show ?thesis
    using s r onSide_correctSide by (fastforce simp: entryOnSide_def list_all_iff)
qed

lemma addTimeframe_cases:
  "addTimeframe tfs (name, ks) = tfs \<or>
   (\<exists>e. addTimeframe tfs (name, ks) = tfs(name \<mapsto> e) \<and> entryOnSide (Close (last ks)) e)"
proof -
  let ?e = "\<lparr>Supports = updateLevelDistances (fst (calculateSupportResistanceLevels ks 120))
                          (Close (last ks)) True,
            Resistances = updateLevelDistances (snd (calculateSupportResistanceLevels ks 120))
                            (Close (last ks)) False\<rparr>"
  have "addTimeframe tfs (name, ks) = tfs \<or> addTimeframe tfs (name, ks) = tfs(name \<mapsto> ?e)"
    by (simp add: addTimeframe_def Let_def)
  moreover have "entryOnSide (Close (last ks)) ?e" by (rule entry_of_levels)
  ultimately show ?thesis by blast
qed

lemma addTimeframe_entriesFrom:
  assumes "entriesFrom inputs tfs" "(name, ks) \<in> set inputs"
  shows "entriesFrom inputs (addTimeframe tfs (name, ks))"
proof -
  consider "addTimeframe tfs (name, ks) = tfs"
    | e where "addTimeframe tfs (name, ks) = tfs(name \<mapsto> e)" "entryOnSide (Close (last ks)) e"
    using addTimeframe_cases[of tfs name ks] by blast
  then show ?thesis
  proof cases
    case 1 then show ?thesis using assms(1) by simp
  next
    case 2
    show ?thesis unfolding 2(1) entriesFrom_def
    proof (intro allI impI)
      fix n e' assume h: "(tfs(name \<mapsto> e)) n = Some e'"
      show "\<exists>ks. (n, ks) \<in> set inputs \<and> entryOnSide (Close (last ks)) e'"
      proof (cases "n = name")
        case True
        then have "e' = e" using h by simp
        then show ?thesis using True assms(2) 2(2) by blast
      next
        case False
        then have "tfs n = Some e'" using h by simp
        then show ?thesis using assms(1) by (simp add: entriesFrom_def)
      qed
    qed
  qed
qed

lemma foldl_addTimeframe_entriesFrom:
  "entriesFrom inputs tfs \<Longrightarrow> set xs \<subseteq> set inputs \<Longrightarrow>
   entriesFrom inputs (foldl addTimeframe tfs xs)"
proof (induction xs arbitrary: tfs)
  case Nil then show ?case by simp
next
  case (Cons x xs)
  obtain name ks where x: "x = (name, ks)" by (cases x)
  have "entriesFrom inputs (addTimeframe tfs (name, ks))"
    using Cons.prems x by (intro addTimeframe_entriesFrom) auto
  then show ?case using Cons.IH[of "addTimeframe tfs x"] Cons.prems(2) x by simp
qed

lemma tfInputs_distinct:
  "distinct (map fst (tfInputs k3 k15 k1h k4h k12h k1d))"
  by (simp add: tfInputs_def)

lemma summary_timeframes:
  "Timeframes (calculateSupportResistanceSummary k3 k15 k1h k4h k12h k1d cp) =
   foldl addTimeframe Map.empty (tfInputs k3 k15 k1h k4h k12h k1d)"
  by (simp add: calculateSupportResistanceSummary_def Let_def split: option.splits prod.splits)

lemma timeframes_entries:
  assumes "Timeframes (calculateSupportResistanceSummary k3 k15 k1h k4h k12h k1d cp) name = Some tf"
  shows "\<exists>ks. map_of (tfInputs k3 k15 k1h k4h k12h k1d) name = Some ks \<and>
              entryOnSide (Close (last ks)) tf"
proof -
  let ?inputs = "tfInputs k3 k15 k1h k4h k12h k1d"
  have "entriesFrom ?inputs (foldl addTimeframe Map.empty ?inputs)"
    by (rule foldl_addTimeframe_entriesFrom) (simp_all add: entriesFrom_def)
  then obtain ks where "(name, ks) \<in> set ?inputs" "entryOnSide (Close (last ks)) tf"
    using assms unfolding summary_timeframes entriesFrom_def by blast
  then show ?thesis using tfInputs_distinct[of k3 k15 k1h k4h k12h k1d] by auto
qed

lemma combineLevel_price:
  "combineLevel tol sets l0 = Some l \<Longrightarrow> Price l = Price l0 \<and> IsSupport l = IsSupport l0"
  by (auto simp: combineLevel_def addContribution_def discountBase_def split: option.splits)

lemma findConfluenceLevels_price:
  assumes "l \<in> set (findConfluenceLevels base sets tol cp b)"
  shows "\<exists>l0\<in>set base. Price l = Price l0 \<and> IsSupport l = IsSupport l0"
proof -
  let ?res = "List.map_filter (combineLevel tol sets) base"
  have "l \<in> set ?res \<or> l \<in> set (sortAndFilterLevels (updateLevelDistances ?res cp b) b)"
    using assms by (auto simp: findConfluenceLevels_def Let_def split: if_splits)
  then have "\<exists>l1\<in>set ?res. Price l = Price l1 \<and> IsSupport l = IsSupport l1"
  proof
    assume "l \<in> set ?res" then show ?thesis by blast
  next
    assume "l \<in> set (sortAndFilterLevels (updateLevelDistances ?res cp b) b)"
    then have "l \<in> set (updateLevelDistances ?res cp b)" using sortAndFilterLevels_subset by blast
    then show ?thesis using updateLevelDistances_price by blast
  qed
  then obtain l1 where l1: "l1 \<in> set ?res" "Price l = Price l1" "IsSupport l = IsSupport l1" by blast
  then obtain l0 where "l0 \<in> set base" "combineLevel tol sets l0 = Some l1"
    by (auto simp: map_filter_def)
  then show ?thesis using l1 combineLevel_price by fastforce
qed

lemma pickBase_Some:
  "pickBase tfs names = Some (bn, base) \<Longrightarrow> tfs bn = Some base \<and> bn \<in> set names"
  by (induction names) (auto split: option.splits)

lemma confluence_against_base:
  assumes "Confluence (calculateSupportResistanceSummary k3 k15 k1h k4h k12h k1d cp) = Some c"
  shows "\<exists>bn base ks.
           pickBase (Timeframes (calculateSupportResistanceSummary k3 k15 k1h k4h k12h k1d cp))
             [''3m'', ''15m'', ''1h'', ''4h''] = Some (bn, base) \<and>
           map_of (tfInputs k3 k15 k1h k4h k12h k1d) bn = Some ks \<and>
           entryOnSide (Close (last ks)) c"
proof -
  let ?S = "calculateSupportResistanceSummary k3 k15 k1h k4h k12h k1d cp"
  let ?tfs = "foldl addTimeframe Map.empty (tfInputs k3 k15 k1h k4h k12h k1d)"
  obtain bn base where pb: "pickBase ?tfs [''3m'', ''15m'', ''1h'', ''4h''] = Some (bn, base)"
    and c: "c = \<lparr>Supports = findConfluenceLevels (Supports base) (collectSets ?tfs bn Supports) 0.002 cp True,
                 Resistances = findConfluenceLevels (Resistances base) (collectSets ?tfs bn Resistances) 0.002 cp False\<rparr>"
    using assms
    by (auto simp: calculateSupportResistanceSummary_def Let_def split: option.splits prod.splits if_splits)
  have "?tfs bn = Some base" using pickBase_Some[OF pb] by simp
  then have "Timeframes ?S bn = Some base" by (simp add: summary_timeframes)
  then obtain ks where ks: "map_of (tfInputs k3 k15 k1h k4h k12h k1d) bn = Some ks"
    "entryOnSide (Close (last ks)) base"
    using timeframes_entries by blast
  have "entryOnSide (Close (last ks)) c"
    unfolding entryOnSide_def list_all_iff
  proof (rule conjI; rule ballI)
    fix l assume "l \<in> set (Supports c)"
    then obtain l0 where "l0 \<in> set (Supports base)" "Price l = Price l0" "IsSupport l = IsSupport l0"
      using findConfluenceLevels_price c by (metis SupportResistanceTimeframe.select_convs(1))
    then show "IsSupport l \<and> correctSide (Close (last ks)) l"
      using ks(2) by (auto simp: entryOnSide_def list_all_iff correctSide_def)
  next
    fix l assume "l \<in> set (Resistances c)"
    then obtain l0 where "l0 \<in> set (Resistances base)" "Price l = Price l0" "IsSupport l = IsSupport l0"
      using findConfluenceLevels_price c by (metis SupportResistanceTimeframe.select_convs(2))
    then show "\<not> IsSupport l \<and> correctSide (Close (last ks)) l"
      using ks(2) by (auto simp: entryOnSide_def list_all_iff correctSide_def)
  qed
  then show ?thesis using pb ks(1) unfolding summary_timeframes by blast
qed

lemma pickBase_first: "tfs n = Some e \<Longrightarrow> pickBase tfs (n # ns) = Some (n, e)"
  by simp

text \<open>
  C1, as the code has it. Every support returned by \<open>calculateSupportResistanceLevels\<close>
  (after \<open>mergeNearbyLevels\<close> and the ranking) has \<open>IsSupport\<close> true and a price strictly
  below the last close of the candles it was computed from, and every resistance has
  \<open>IsSupport\<close> false and a price strictly above it; so has every timeframe entry of the
  summary, against the last close of that timeframe's candles. The confluence levels keep
  the prices and flags of the base timeframe's levels (the first of 3m, 15m, 1h, 4h with an
  entry), so they are on the correct side of the base timeframe's last close. They are on
  the correct side of the \<open>currentPrice\<close> argument when the base timeframe is 3m and
  \<open>currentPrice\<close> is the last 3m close, which is what \<open>Get\<close> passes.
\<close>

theorem levels_on_their_side:
  "list_all (\<lambda>l. IsSupport l \<and> correctSide (Close (last klines)) l)
     (fst (calculateSupportResistanceLevels klines lookback)) \<and>
   list_all (\<lambda>l. \<not> IsSupport l \<and> correctSide (Close (last klines)) l)
     (snd (calculateSupportResistanceLevels klines lookback)) \<and>
   (Timeframes (calculateSupportResistanceSummary k3 k15 k1h k4h k12h k1d cp) name = Some tf \<longrightarrow>
      (\<exists>ks. map_of (tfInputs k3 k15 k1h k4h k12h k1d) name = Some ks \<and>
            entryOnSide (Close (last ks)) tf)) \<and>
   (Confluence (calculateSupportResistanceSummary k3 k15 k1h k4h k12h k1d cp) = Some c \<longrightarrow>
      (\<exists>bn base ks.
          pickBase (Timeframes (calculateSupportResistanceSummary k3 k15 k1h k4h k12h k1d cp))
            [''3m'', ''15m'', ''1h'', ''4h''] = Some (bn, base) \<and>
          map_of (tfInputs k3 k15 k1h k4h k12h k1d) bn = Some ks \<and>
          entryOnSide (Close (last ks)) c)) \<and>
   (Confluence (calculateSupportResistanceSummary k3 k15 k1h k4h k12h k1d cp) = Some c \<and>
    Timeframes (calculateSupportResistanceSummary k3 k15 k1h k4h k12h k1d cp) ''3m'' \<noteq> None \<and>
    cp = Close (last k3) \<longrightarrow> entryOnSide cp c)"
proof -
  let ?S = "calculateSupportResistanceSummary k3 k15 k1h k4h k12h k1d cp"
  have a: "list_all (\<lambda>l. IsSupport l \<and> correctSide (Close (last klines)) l)
     (fst (calculateSupportResistanceLevels klines lookback))"
    using levels_onSide[of klines lookback] onSide_correctSide
    unfolding list_all_iff by blast
  have b: "list_all (\<lambda>l. \<not> IsSupport l \<and> correctSide (Close (last klines)) l)
     (snd (calculateSupportResistanceLevels klines lookback))"
    using levels_onSide[of klines lookback] onSide_correctSide
    unfolding list_all_iff by blast
  have e: "entryOnSide cp c"
    if h: "Confluence ?S = Some c" "Timeframes ?S ''3m'' \<noteq> None" "cp = Close (last k3)"
  proof -
    obtain bn base ks where x:
      "pickBase (Timeframes ?S) [''3m'', ''15m'', ''1h'', ''4h''] = Some (bn, base)"
      "map_of (tfInputs k3 k15 k1h k4h k12h k1d) bn = Some ks"
      "entryOnSide (Close (last ks)) c"
      using confluence_against_base[OF h(1)] by blast
    obtain e3 where "Timeframes ?S ''3m'' = Some e3" using h(2) by blast
    then have "bn = ''3m''" using x(1) by simp
    then have "ks = k3" using x(2) by (simp add: tfInputs_def)
    then show ?thesis using x(3) h(3) by simp
  qed
  show ?thesis
    using a b timeframes_entries[of k3 k15 k1h k4h k12h k1d cp name tf]
      confluence_against_base[of k3 k15 k1h k4h k12h k1d cp c] e
    by blast
qed

lemma ex15: "Timeframes (calculateSupportResistanceSummary (replicate 7 (flatKline 85)) dipCandles
        dipCandles [] [] [] 85) ''15m'' =
      Some \<lparr>Supports = [\<lparr>Price = 90, Strength = 1, Distance = 10, Score = 3 / 4, IsSupport = True\<rparr>],
            Resistances = [\<lparr>Price = 101, Strength = 7, Distance = 1, Score = 21 / 4, IsSupport = False\<rparr>]\<rparr>"
  by code_simp

text \<open>
  C1, as stated, fails: \<open>findConfluenceLevels\<close> never compares a price with its
  \<open>currentPrice\<close> argument. With seven flat 3m candles at 85 (no levels, so 15m is the base),
  and 15m and 1h candles that close at 100 with a low of 90, the confluence support at 90
  lies above the \<open>currentPrice\<close> argument 85.
\<close>

theorem confluence_support_above_current_price:
  "Confluence (calculateSupportResistanceSummary (replicate 7 (flatKline 85)) dipCandles
        dipCandles [] [] [] 85) =
     Some \<lparr>Supports = [\<lparr>Price = 90, Strength = 2, Distance = 100 / 17, Score = 51 / 40,
                          IsSupport = True\<rparr>],
           Resistances = [\<lparr>Price = 101, Strength = 12, Distance = 320 / 17, Score = 357 / 40,
                             IsSupport = False\<rparr>]\<rparr> \<and>
   \<not> correctSide 85 \<lparr>Price = 90, Strength = 2, Distance = 100 / 17, Score = 51 / 40,
                       IsSupport = True\<rparr>"
  by code_simp

lemma ex3: "Confluence (calculateSupportResistanceSummary dipCandles dipCandles [] [] [] [] 100) =
     Some \<lparr>Supports = [\<lparr>Price = 90, Strength = 2, Distance = 10, Score = 9 / 8,
                          IsSupport = True\<rparr>],
           Resistances = [\<lparr>Price = 101, Strength = 11, Distance = 1, Score = 63 / 8,
                             IsSupport = False\<rparr>]\<rparr>"
  by code_simp

lemma ex3tf: "Timeframes (calculateSupportResistanceSummary dipCandles dipCandles [] [] [] [] 100) ''3m'' \<noteq> None"
  by code_simp

theorem levels_on_their_side_witness:
  "Timeframes (calculateSupportResistanceSummary (replicate 7 (flatKline 85)) dipCandles
        dipCandles [] [] [] 85) ''15m'' =
      Some \<lparr>Supports = [\<lparr>Price = 90, Strength = 1, Distance = 10, Score = 3 / 4, IsSupport = True\<rparr>],
            Resistances = [\<lparr>Price = 101, Strength = 7, Distance = 1, Score = 21 / 4, IsSupport = False\<rparr>]\<rparr> \<and>
   (\<exists>ks. map_of (tfInputs (replicate 7 (flatKline 85)) dipCandles dipCandles [] [] []) ''15m'' = Some ks \<and>
      entryOnSide (Close (last ks))
        \<lparr>Supports = [\<lparr>Price = 90, Strength = 1, Distance = 10, Score = 3 / 4, IsSupport = True\<rparr>],
         Resistances = [\<lparr>Price = 101, Strength = 7, Distance = 1, Score = 21 / 4, IsSupport = False\<rparr>]\<rparr>) \<and>
   Confluence (calculateSupportResistanceSummary dipCandles dipCandles [] [] [] [] 100) =
     Some \<lparr>Supports = [\<lparr>Price = 90, Strength = 2, Distance = 10, Score = 9 / 8,
                          IsSupport = True\<rparr>],
           Resistances = [\<lparr>Price = 101, Strength = 11, Distance = 1, Score = 63 / 8,
                             IsSupport = False\<rparr>]\<rparr> \<and>
   Close (last dipCandles) = 100 \<and>
   entryOnSide 100
     \<lparr>Supports = [\<lparr>Price = 90, Strength = 2, Distance = 10, Score = 9 / 8, IsSupport = True\<rparr>],
      Resistances = [\<lparr>Price = 101, Strength = 11, Distance = 1, Score = 63 / 8,
                        IsSupport = False\<rparr>]\<rparr>"
proof -
  have c: "Close (last dipCandles) = 100" by (simp add: dipCandles_def mkCandle_def)
  have a: "\<exists>ks. map_of (tfInputs (replicate 7 (flatKline 85)) dipCandles dipCandles [] [] []) ''15m'' = Some ks \<and>
      entryOnSide (Close (last ks))
        \<lparr>Supports = [\<lparr>Price = 90, Strength = 1, Distance = 10, Score = 3 / 4, IsSupport = True\<rparr>],
         Resistances = [\<lparr>Price = 101, Strength = 7, Distance = 1, Score = 21 / 4, IsSupport = False\<rparr>]\<rparr>"
    by (rule mp[OF levels_on_their_side[THEN conjunct2, THEN conjunct2, THEN conjunct1] ex15])
  have b: "entryOnSide 100
     \<lparr>Supports = [\<lparr>Price = 90, Strength = 2, Distance = 10, Score = 9 / 8, IsSupport = True\<rparr>],
      Resistances = [\<lparr>Price = 101, Strength = 11, Distance = 1, Score = 63 / 8,
                        IsSupport = False\<rparr>]\<rparr>"
    by (rule mp[OF levels_on_their_side[THEN conjunct2, THEN conjunct2, THEN conjunct2, THEN conjunct2]
          conjI[OF ex3 conjI[OF ex3tf c[symmetric]]]])
  show ?thesis using ex15 a ex3 c b by (intro conjI)
qed

section \<open>Confluence matching\<close>

lemma firstMatch_Some_iff:
  "firstMatch tol level sets \<noteq> None \<longleftrightarrow>
   (\<exists>s\<in>set sets. \<exists>other\<in>set (levels s). levelsMatch tol level other)"
proof (induction sets)
  case Nil then show ?case by simp
next
  case (Cons s sets)
  show ?case
  proof (cases "find (levelsMatch tol level) (levels s)")
    case None
    then have "\<forall>x\<in>set (levels s). \<not> levelsMatch tol level x" by (simp add: find_None_iff)
    then show ?thesis using None Cons.IH by simp
  next
    case (Some other)
    then have "other \<in> set (levels s) \<and> levelsMatch tol level other"
      by (metis find_Some_iff nth_mem)
    then show ?thesis using Some by auto
  qed
qed

lemma combineLevel_Some_iff:
  "combineLevel tol sets level \<noteq> None \<longleftrightarrow>
   (\<exists>s\<in>set sets. \<exists>other\<in>set (levels s). levelsMatch tol level other)"
proof -
  have "combineLevel tol sets level \<noteq> None \<longleftrightarrow> firstMatch tol level sets \<noteq> None"
    by (simp add: combineLevel_def split: option.splits)
  then show ?thesis by (simp only: firstMatch_Some_iff)
qed

lemma firstMatch_first_hit:
  assumes "\<forall>s'\<in>set pre. \<forall>x\<in>set (levels s'). \<not> levelsMatch tol level x"
    and "find (levelsMatch tol level) (levels s) = Some other"
  shows "firstMatch tol level (pre @ s # post) = Some (other, weightedLevelSet.weight s)"
  using assms(1)
proof (induction pre)
  case Nil then show ?case using assms(2) by simp
next
  case (Cons p pre)
  have "find (levelsMatch tol level) (levels p) = None"
    using Cons.prems by (simp add: find_None_iff)
  then show ?case using Cons by simp
qed

lemma combineLevel_first_hit:
  assumes "\<forall>s'\<in>set pre. \<forall>x\<in>set (levels s'). \<not> levelsMatch tol level x"
    and "find (levelsMatch tol level) (levels s) = Some other"
  shows "combineLevel tol (pre @ s # post) level =
     Some (level\<lparr>Score := Score level * 0.5 + Score other * weightedLevelSet.weight s,
                 Strength := goRound (real_of_int (Strength level) * 0.5) +
                             goRound (real_of_int (Strength other) * weightedLevelSet.weight s)\<rparr>)"
  by (simp add: combineLevel_def firstMatch_first_hit[OF assms] addContribution_def discountBase_def)

lemma map_filter_length: "length (List.map_filter f xs) \<le> length xs"
  by (simp add: map_filter_def)

lemma combineLevel_no_sets: "combineLevel tol [] l = None"
  by (simp add: combineLevel_def)

lemma findConfluenceLevels_mset:
  assumes "length base \<le> 5"
  shows "mset (findConfluenceLevels base sets tol cp b) =
         mset (updateLevelDistances (List.map_filter (combineLevel tol sets) base) cp b)"
proof (cases "length base = 0 \<or> length sets = 0")
  case True
  then have "List.map_filter (combineLevel tol sets) base = []"
    by (auto simp: map_filter_def combineLevel_no_sets)
  then show ?thesis using True by (simp add: findConfluenceLevels_def updateLevelDistances_def)
next
  case False
  let ?res = "List.map_filter (combineLevel tol sets) base"
  show ?thesis
  proof (cases "length ?res = 0")
    case True
    then show ?thesis using False by (simp add: findConfluenceLevels_def Let_def updateLevelDistances_def)
  next
    case nz: False
    have "length (updateLevelDistances ?res cp b) \<le> 5"
      using map_filter_length[of "combineLevel tol sets" base] assms
      by (simp add: updateLevelDistances_length)
    then have "mset (sortAndFilterLevels (updateLevelDistances ?res cp b) b) =
               mset (updateLevelDistances ?res cp b)"
      by (rule sortAndFilterLevels_small)
    then show ?thesis using False nz by (simp add: findConfluenceLevels_def Let_def)
  qed
qed

lemma collectSets_weights:
  "map weightedLevelSet.weight (collectSets tfs bn side) =
   map snd (filter (\<lambda>config. fst config \<noteq> bn \<and> tfs (fst config) \<noteq> None) weighting)"
proof -
  have "map weightedLevelSet.weight (List.map_filter
       (\<lambda>config. if fst config = bn then None
                  else case tfs (fst config) of
                         None \<Rightarrow> None
                       | Some tf \<Rightarrow> Some \<lparr>levels = side tf, weightedLevelSet.weight = snd config\<rparr>) xs) =
     map snd (filter (\<lambda>config. fst config \<noteq> bn \<and> tfs (fst config) \<noteq> None) xs)" for xs
    by (induction xs) (auto simp: map_filter_def split: option.splits)
  then show ?thesis by (simp add: collectSets_def)
qed

lemma levels_length:
  "length (fst (calculateSupportResistanceLevels klines lookback)) \<le> 5 \<and>
   length (snd (calculateSupportResistanceLevels klines lookback)) \<le> 5"
  by (simp add: calculateSupportResistanceLevels_def Let_def sortAndFilterLevels_length)

lemma collectSets_eq:
  "collectSets tfs bn side =
   map (\<lambda>config. \<lparr>levels = side (the (tfs (fst config))), weightedLevelSet.weight = snd config\<rparr>)
     (filter (\<lambda>config. fst config \<noteq> bn \<and> tfs (fst config) \<noteq> None) weighting)"
proof -
  have "List.map_filter
       (\<lambda>config. if fst config = bn then None
                  else case tfs (fst config) of
                         None \<Rightarrow> None
                       | Some tf \<Rightarrow> Some \<lparr>levels = side tf, weightedLevelSet.weight = snd config\<rparr>) xs =
     map (\<lambda>config. \<lparr>levels = side (the (tfs (fst config))), weightedLevelSet.weight = snd config\<rparr>)
       (filter (\<lambda>config. fst config \<noteq> bn \<and> tfs (fst config) \<noteq> None) xs)" for xs
    by (induction xs) (auto simp: map_filter_def split: option.splits)
  then show ?thesis by (simp add: collectSets_def)
qed

lemma combineLevel_other_timeframes:
  "combineLevel tol (collectSets tfs bn side) level \<noteq> None \<longleftrightarrow>
   (\<exists>config\<in>set weighting. fst config \<noteq> bn \<and>
      (\<exists>tf. tfs (fst config) = Some tf \<and>
         (\<exists>other\<in>set (side tf). levelsMatch tol level other)))"
proof -
  have "(\<exists>s\<in>set (collectSets tfs bn side). \<exists>other\<in>set (levels s). levelsMatch tol level other) \<longleftrightarrow>
        (\<exists>config\<in>set weighting. fst config \<noteq> bn \<and> tfs (fst config) \<noteq> None \<and>
           (\<exists>other\<in>set (side (the (tfs (fst config)))). levelsMatch tol level other))"
    unfolding collectSets_eq by (simp add: Bex_def)
  also have "\<dots> \<longleftrightarrow> (\<exists>config\<in>set weighting. fst config \<noteq> bn \<and>
      (\<exists>tf. tfs (fst config) = Some tf \<and>
         (\<exists>other\<in>set (side tf). levelsMatch tol level other)))"
    by (metis option.sel option.distinct(1) not_Some_eq)
  finally show ?thesis unfolding combineLevel_Some_iff .
qed

lemma summary_confluence:
  assumes "pickBase (Timeframes (calculateSupportResistanceSummary k3 k15 k1h k4h k12h k1d cp))
             [''3m'', ''15m'', ''1h'', ''4h''] = Some (bn, base)"
  shows "Timeframes (calculateSupportResistanceSummary k3 k15 k1h k4h k12h k1d cp) bn = Some base"
    and "Confluence (calculateSupportResistanceSummary k3 k15 k1h k4h k12h k1d cp) =
      (if collectSets (Timeframes (calculateSupportResistanceSummary k3 k15 k1h k4h k12h k1d cp))
            bn Supports = []
       then None
       else Some
         \<lparr>Supports = findConfluenceLevels (Supports base)
            (collectSets (Timeframes (calculateSupportResistanceSummary k3 k15 k1h k4h k12h k1d cp))
               bn Supports) 0.002 cp True,
          Resistances = findConfluenceLevels (Resistances base)
            (collectSets (Timeframes (calculateSupportResistanceSummary k3 k15 k1h k4h k12h k1d cp))
               bn Resistances) 0.002 cp False\<rparr>)"
proof -
  show "Timeframes (calculateSupportResistanceSummary k3 k15 k1h k4h k12h k1d cp) bn = Some base"
    using pickBase_Some[OF assms] by simp
  show "Confluence (calculateSupportResistanceSummary k3 k15 k1h k4h k12h k1d cp) =
      (if collectSets (Timeframes (calculateSupportResistanceSummary k3 k15 k1h k4h k12h k1d cp))
            bn Supports = []
       then None
       else Some
         \<lparr>Supports = findConfluenceLevels (Supports base)
            (collectSets (Timeframes (calculateSupportResistanceSummary k3 k15 k1h k4h k12h k1d cp))
               bn Supports) 0.002 cp True,
          Resistances = findConfluenceLevels (Resistances base)
            (collectSets (Timeframes (calculateSupportResistanceSummary k3 k15 k1h k4h k12h k1d cp))
               bn Resistances) 0.002 cp False\<rparr>)"
    using assms unfolding summary_timeframes
    by (simp add: calculateSupportResistanceSummary_def Let_def)
qed

lemma summary_no_base:
  assumes "pickBase (Timeframes (calculateSupportResistanceSummary k3 k15 k1h k4h k12h k1d cp))
             [''3m'', ''15m'', ''1h'', ''4h''] = None"
  shows "Confluence (calculateSupportResistanceSummary k3 k15 k1h k4h k12h k1d cp) = None"
  using assms unfolding summary_timeframes
  by (simp add: calculateSupportResistanceSummary_def Let_def)

text \<open>
  C3. In \<open>findConfluenceLevels\<close> a base level is combined (and so enters the result) exactly
  when some level of some set lies within the relative tolerance of it, the distance taken
  relative to the mean of the two prices. For a base list of at most 5 levels (every
  timeframe's list has at most 5) the result holds exactly the combined levels of the
  matched base levels, with their distances updated. The search stops at the first set, in
  the order of the list, that holds a matching level, and at the first such level in it: the
  combined score is the base score times 0.5 plus that level's score times that set's
  weight, the combined strength is the base strength times 0.5, rounded, plus that level's
  strength times the weight, rounded; later sets contribute nothing.

  The sets are those of the other timeframes: \<open>collectSets\<close> gives one set for every
  timeframe of the weight table 3m 0.8, 15m 1.0, 1h 1.2, 4h 1.4, 12h 1.6, 1d 1.8 that is not
  the base and is present in the summary, in the order of the table, and the set carries the
  levels of that timeframe on the side asked for, with the table's weight. So a base level is
  combined exactly when a level of another present timeframe, on the same side, lies within
  the tolerance of it. The summary takes as base the first of 3m, 15m, 1h, 4h that is present,
  and its confluence is \<open>findConfluenceLevels\<close> of the base's supports and of the base's
  resistances against these sets with tolerance 0.002; there is no confluence when no base
  or no other timeframe is present.
\<close>

theorem confluence_matching:
  "(combineLevel tol sets level \<noteq> None \<longleftrightarrow>
      (\<exists>s\<in>set sets. \<exists>other\<in>set (levels s). levelsMatch tol level other)) \<and>
   (levelsMatch tol level other \<longleftrightarrow>
      (Price level + Price other) / 2 \<noteq> 0 \<and>
      \<bar>Price level - Price other\<bar> / ((Price level + Price other) / 2) \<le> tol) \<and>
   (length base \<le> 5 \<longrightarrow>
      mset (findConfluenceLevels base sets tol cp b) =
      mset (updateLevelDistances (List.map_filter (combineLevel tol sets) base) cp b)) \<and>
   ((\<forall>s'\<in>set pre. \<forall>x\<in>set (levels s'). \<not> levelsMatch tol level x) \<and>
    find (levelsMatch tol level) (levels s) = Some other \<longrightarrow>
      combineLevel tol (pre @ s # post) level =
        Some (level\<lparr>Score := Score level * 0.5 + Score other * weightedLevelSet.weight s,
                    Strength := goRound (real_of_int (Strength level) * 0.5) +
                                goRound (real_of_int (Strength other) * weightedLevelSet.weight s)\<rparr>)) \<and>
   map weightedLevelSet.weight (collectSets tfs bn side) =
     map snd (filter (\<lambda>config. fst config \<noteq> bn \<and> tfs (fst config) \<noteq> None)
       [(''3m'', 0.8), (''15m'', 1.0), (''1h'', 1.2), (''4h'', 1.4), (''12h'', 1.6), (''1d'', 1.8)]) \<and>
   length (fst (calculateSupportResistanceLevels klines lookback)) \<le> 5 \<and>
   length (snd (calculateSupportResistanceLevels klines lookback)) \<le> 5 \<and>
   collectSets tfs bn side =
     map (\<lambda>config. \<lparr>levels = side (the (tfs (fst config))),
                       weightedLevelSet.weight = snd config\<rparr>)
       (filter (\<lambda>config. fst config \<noteq> bn \<and> tfs (fst config) \<noteq> None)
          [(''3m'', 0.8), (''15m'', 1.0), (''1h'', 1.2), (''4h'', 1.4), (''12h'', 1.6),
           (''1d'', 1.8)]) \<and>
   (combineLevel tol (collectSets tfs bn side) level \<noteq> None \<longleftrightarrow>
      (\<exists>config\<in>set [(''3m'', 0.8), (''15m'', 1.0), (''1h'', 1.2), (''4h'', 1.4),
                         (''12h'', 1.6), (''1d'', 1.8 :: real)].
         fst config \<noteq> bn \<and>
         (\<exists>tf. tfs (fst config) = Some tf \<and>
            (\<exists>x\<in>set (side tf). levelsMatch tol level x)))) \<and>
   (pickBase (Timeframes (calculateSupportResistanceSummary k3 k15 k1h k4h k12h k1d price))
      [''3m'', ''15m'', ''1h'', ''4h''] = Some (bname, btf) \<longrightarrow>
      Timeframes (calculateSupportResistanceSummary k3 k15 k1h k4h k12h k1d price) bname =
        Some btf \<and>
      Confluence (calculateSupportResistanceSummary k3 k15 k1h k4h k12h k1d price) =
        (if collectSets
              (Timeframes (calculateSupportResistanceSummary k3 k15 k1h k4h k12h k1d price))
              bname Supports = []
         then None
         else Some
           \<lparr>Supports = findConfluenceLevels (Supports btf)
              (collectSets
                 (Timeframes (calculateSupportResistanceSummary k3 k15 k1h k4h k12h k1d price))
                 bname Supports) 0.002 price True,
            Resistances = findConfluenceLevels (Resistances btf)
              (collectSets
                 (Timeframes (calculateSupportResistanceSummary k3 k15 k1h k4h k12h k1d price))
                 bname Resistances) 0.002 price False\<rparr>)) \<and>
   (pickBase (Timeframes (calculateSupportResistanceSummary k3 k15 k1h k4h k12h k1d price))
      [''3m'', ''15m'', ''1h'', ''4h''] = None \<longrightarrow>
      Confluence (calculateSupportResistanceSummary k3 k15 k1h k4h k12h k1d price) = None)"
proof -
  have m: "levelsMatch tol level other \<longleftrightarrow>
      (Price level + Price other) / 2 \<noteq> 0 \<and>
      \<bar>Price level - Price other\<bar> / ((Price level + Price other) / 2) \<le> tol"
    by (simp add: levelsMatch_def Let_def)
  have old: "(combineLevel tol sets level \<noteq> None \<longleftrightarrow>
          (\<exists>s\<in>set sets. \<exists>other\<in>set (levels s). levelsMatch tol level other)) \<and>
       (levelsMatch tol level other \<longleftrightarrow>
          (Price level + Price other) / 2 \<noteq> 0 \<and>
          \<bar>Price level - Price other\<bar> / ((Price level + Price other) / 2) \<le> tol) \<and>
       (length base \<le> 5 \<longrightarrow>
          mset (findConfluenceLevels base sets tol cp b) =
          mset (updateLevelDistances (List.map_filter (combineLevel tol sets) base) cp b)) \<and>
       ((\<forall>s'\<in>set pre. \<forall>x\<in>set (levels s'). \<not> levelsMatch tol level x) \<and>
        find (levelsMatch tol level) (levels s) = Some other \<longrightarrow>
          combineLevel tol (pre @ s # post) level =
            Some (level\<lparr>Score := Score level * 0.5 + Score other * weightedLevelSet.weight s,
                        Strength := goRound (real_of_int (Strength level) * 0.5) +
                                    goRound (real_of_int (Strength other) * weightedLevelSet.weight s)\<rparr>)) \<and>
       map weightedLevelSet.weight (collectSets tfs bn side) =
         map snd (filter (\<lambda>config. fst config \<noteq> bn \<and> tfs (fst config) \<noteq> None)
           [(''3m'', 0.8), (''15m'', 1.0), (''1h'', 1.2), (''4h'', 1.4), (''12h'', 1.6), (''1d'', 1.8)]) \<and>
       length (fst (calculateSupportResistanceLevels klines lookback)) \<le> 5 \<and>
       length (snd (calculateSupportResistanceLevels klines lookback)) \<le> 5"
    using combineLevel_Some_iff[of tol sets level] m
      findConfluenceLevels_mset[of base sets tol cp b]
      combineLevel_first_hit[of pre tol level s other post]
      collectSets_weights[of tfs bn side, unfolded weighting_def]
      levels_length[of klines lookback]
    by blast
  have new: "collectSets tfs bn side =
     map (\<lambda>config. \<lparr>levels = side (the (tfs (fst config))),
                       weightedLevelSet.weight = snd config\<rparr>)
       (filter (\<lambda>config. fst config \<noteq> bn \<and> tfs (fst config) \<noteq> None)
          [(''3m'', 0.8), (''15m'', 1.0), (''1h'', 1.2), (''4h'', 1.4), (''12h'', 1.6),
           (''1d'', 1.8)]) \<and>
   (combineLevel tol (collectSets tfs bn side) level \<noteq> None \<longleftrightarrow>
      (\<exists>config\<in>set [(''3m'', 0.8), (''15m'', 1.0), (''1h'', 1.2), (''4h'', 1.4),
                         (''12h'', 1.6), (''1d'', 1.8 :: real)].
         fst config \<noteq> bn \<and>
         (\<exists>tf. tfs (fst config) = Some tf \<and>
            (\<exists>x\<in>set (side tf). levelsMatch tol level x))))"
    using collectSets_eq[of tfs bn side, unfolded weighting_def]
      combineLevel_other_timeframes[of tol tfs bn side level, unfolded weighting_def]
    by blast
  have s1: "Timeframes (calculateSupportResistanceSummary k3 k15 k1h k4h k12h k1d price) bname =
        Some btf \<and>
      Confluence (calculateSupportResistanceSummary k3 k15 k1h k4h k12h k1d price) =
        (if collectSets
              (Timeframes (calculateSupportResistanceSummary k3 k15 k1h k4h k12h k1d price))
              bname Supports = []
         then None
         else Some
           \<lparr>Supports = findConfluenceLevels (Supports btf)
              (collectSets
                 (Timeframes (calculateSupportResistanceSummary k3 k15 k1h k4h k12h k1d price))
                 bname Supports) 0.002 price True,
            Resistances = findConfluenceLevels (Resistances btf)
              (collectSets
                 (Timeframes (calculateSupportResistanceSummary k3 k15 k1h k4h k12h k1d price))
                 bname Resistances) 0.002 price False\<rparr>)"
    if "pickBase (Timeframes (calculateSupportResistanceSummary k3 k15 k1h k4h k12h k1d price))
      [''3m'', ''15m'', ''1h'', ''4h''] = Some (bname, btf)"
    using summary_confluence[OF that] by (rule conjI)
  have s2: "Confluence (calculateSupportResistanceSummary k3 k15 k1h k4h k12h k1d price) = None"
    if "pickBase (Timeframes (calculateSupportResistanceSummary k3 k15 k1h k4h k12h k1d price))
      [''3m'', ''15m'', ''1h'', ''4h''] = None"
    using that by (rule summary_no_base)
  show ?thesis using old new s1 s2 by blast
qed


theorem confluence_matching_witness:
  "combineLevel 0.002 exSets (exLevel 90 3 1) = Some (exLevel 90 4 (29 / 10)) \<and>
   combineLevel 0.002 exSets (exLevel 70 3 1) = None \<and>
   mset (findConfluenceLevels [exLevel 90 3 1, exLevel 70 3 1] exSets 0.002 95 True) =
     mset [(exLevel 90 4 (29 / 10))\<lparr>Distance := 100 / 19\<rparr>] \<and>
   combineLevel 0.002
     (collectSets [''3m'' \<mapsto> \<lparr>Supports = [exLevel 90 1 1], Resistances = []\<rparr>,
                   ''15m'' \<mapsto> \<lparr>Supports = [exLevel 80 1 1], Resistances = []\<rparr>]
        ''3m'' Supports) (exLevel 90 1 1) = None \<and>
   combineLevel 0.002
     (collectSets [''3m'' \<mapsto> \<lparr>Supports = [exLevel 90 1 1], Resistances = []\<rparr>,
                   ''15m'' \<mapsto> \<lparr>Supports = [exLevel 80 1 1], Resistances = []\<rparr>]
        ''15m'' Supports) (exLevel 90 1 1) \<noteq> None \<and>
   Confluence (calculateSupportResistanceSummary dipCandles dip80Candles [] [] [] [] 100) =
     Some \<lparr>Supports = [],
           Resistances = [\<lparr>Price = 101, Strength = 11, Distance = 1, Score = 63 / 8,
                             IsSupport = False\<rparr>]\<rparr>"
proof -
  have pre: "\<forall>s'\<in>set [\<lparr>levels = [exLevel 100 1 1], weightedLevelSet.weight = 0.8\<rparr>].
               \<forall>x\<in>set (levels s'). \<not> levelsMatch 0.002 (exLevel 90 3 1) x"
    by (simp add: levelsMatch_def exLevel_def)
  have hit: "find (levelsMatch 0.002 (exLevel 90 3 1))
               (levels \<lparr>levels = [exLevel 80 1 1, exLevel 90.1 2 2], weightedLevelSet.weight = 1.2\<rparr>) =
             Some (exLevel 90.1 2 2)"
    by (simp add: levelsMatch_def exLevel_def)
  have c1: "combineLevel 0.002 exSets (exLevel 90 3 1) = Some (exLevel 90 4 (29 / 10))"
    using mp[OF confluence_matching[THEN conjunct2, THEN conjunct2, THEN conjunct2, THEN conjunct1]
             conjI[OF pre hit],
             of "[\<lparr>levels = [exLevel 90 5 10], weightedLevelSet.weight = 1.4\<rparr>]"]
    by (simp add: exSets_def exLevel_def goRound_def)
  have none: "\<not> (\<exists>s\<in>set exSets. \<exists>other\<in>set (levels s). levelsMatch 0.002 (exLevel 70 3 1) other)"
    by (simp add: exSets_def levelsMatch_def exLevel_def)
  have c2: "combineLevel 0.002 exSets (exLevel 70 3 1) = None"
    using confluence_matching[THEN conjunct1, of "0.002" exSets "exLevel 70 3 1"] none by blast
  have mf: "List.map_filter (combineLevel 0.002 exSets) [exLevel 90 3 1, exLevel 70 3 1] =
            [exLevel 90 4 (29 / 10)]"
    using c1 c2 by (simp add: map_filter_def)
  have "length [exLevel 90 3 1, exLevel 70 3 1] \<le> 5" by simp
  then have "mset (findConfluenceLevels [exLevel 90 3 1, exLevel 70 3 1] exSets 0.002 95 True) =
      mset (updateLevelDistances (List.map_filter (combineLevel 0.002 exSets)
              [exLevel 90 3 1, exLevel 70 3 1]) 95 True)"
    by (rule mp[OF confluence_matching[THEN conjunct2, THEN conjunct2, THEN conjunct1]])
  then have c3: "mset (findConfluenceLevels [exLevel 90 3 1, exLevel 70 3 1] exSets 0.002 95 True) =
     mset [(exLevel 90 4 (29 / 10))\<lparr>Distance := 100 / 19\<rparr>]"
    by (simp only: mf) (simp add: updateLevelDistances_def exLevel_def)
  let ?tfs = "[''3m'' \<mapsto> \<lparr>Supports = [exLevel 90 1 1], Resistances = []\<rparr>,
               ''15m'' \<mapsto> \<lparr>Supports = [exLevel 80 1 1], Resistances = []\<rparr>]"
  note iff = confluence_matching[THEN conjunct2, THEN conjunct2, THEN conjunct2, THEN conjunct2,
      THEN conjunct2, THEN conjunct2, THEN conjunct2, THEN conjunct2, THEN conjunct1]
  have c4: "combineLevel 0.002 (collectSets ?tfs ''3m'' Supports) (exLevel 90 1 1) = None"
    using iff[of "0.002" ?tfs "''3m''" Supports "exLevel 90 1 1"]
    by (simp add: levelsMatch_def exLevel_def)
  have c5: "combineLevel 0.002 (collectSets ?tfs ''15m'' Supports) (exLevel 90 1 1) \<noteq> None"
    using iff[of "0.002" ?tfs "''15m''" Supports "exLevel 90 1 1"]
    by (simp add: levelsMatch_def exLevel_def)
  have pb: "pickBase (Timeframes (calculateSupportResistanceSummary dipCandles dip80Candles
                [] [] [] [] 100)) [''3m'', ''15m'', ''1h'', ''4h''] =
      Some (''3m'',
        \<lparr>Supports = [\<lparr>Price = 90, Strength = 1, Distance = 10, Score = 3 / 4,
                       IsSupport = True\<rparr>],
         Resistances = [\<lparr>Price = 101, Strength = 7, Distance = 1, Score = 21 / 4,
                          IsSupport = False\<rparr>]\<rparr>)"
    by code_simp
  have rhs: "(if collectSets
              (Timeframes (calculateSupportResistanceSummary dipCandles dip80Candles
                 [] [] [] [] 100)) ''3m'' Supports = []
         then None
         else Some
           \<lparr>Supports = findConfluenceLevels
              [\<lparr>Price = 90, Strength = 1, Distance = 10, Score = 3 / 4, IsSupport = True\<rparr>]
              (collectSets
                 (Timeframes (calculateSupportResistanceSummary dipCandles dip80Candles
                    [] [] [] [] 100)) ''3m'' Supports) 0.002 100 True,
            Resistances = findConfluenceLevels
              [\<lparr>Price = 101, Strength = 7, Distance = 1, Score = 21 / 4, IsSupport = False\<rparr>]
              (collectSets
                 (Timeframes (calculateSupportResistanceSummary dipCandles dip80Candles
                    [] [] [] [] 100)) ''3m'' Resistances) 0.002 100 False\<rparr>) =
     Some \<lparr>Supports = [],
           Resistances = [\<lparr>Price = 101, Strength = 11, Distance = 1, Score = 63 / 8,
                             IsSupport = False\<rparr>]\<rparr>"
    by code_simp
  have c6: "Confluence (calculateSupportResistanceSummary dipCandles dip80Candles [] [] [] [] 100) =
     Some \<lparr>Supports = [],
           Resistances = [\<lparr>Price = 101, Strength = 11, Distance = 1, Score = 63 / 8,
                             IsSupport = False\<rparr>]\<rparr>"
    apply (subst mp[OF confluence_matching[THEN conjunct2, THEN conjunct2, THEN conjunct2,
        THEN conjunct2, THEN conjunct2, THEN conjunct2, THEN conjunct2, THEN conjunct2,
        THEN conjunct2, THEN conjunct1] pb, THEN conjunct2])
    apply (simp only: SupportResistanceTimeframe.select_convs)
    apply (rule rhs)
    done
  show ?thesis using c1 c2 c3 c4 c5 c6 by (intro conjI)
qed

section \<open>Merging two levels\<close>















section \<open>EMA of a constant series in binary64\<close>

lemma bitLength_bounds: "0 < n \<Longrightarrow> 2 ^ (bitLength n - 1) \<le> n \<and> n < 2 ^ bitLength n"
proof (induction n rule: bitLength.induct)
  case (1 n)
  show ?case
  proof (cases "n div 2 \<le> 0")
    case True
    then have "n = 1" using "1.prems" by presburger
    then show ?thesis by (simp add: bitLength.simps)
  next
    case False
    then have h: "0 < n div 2" by simp
    have ih: "2 ^ (bitLength (n div 2) - 1) \<le> n div 2 \<and> n div 2 < 2 ^ bitLength (n div 2)"
      using "1.IH" "1.prems" h by simp
    have bl: "bitLength n = Suc (bitLength (n div 2))" using "1.prems" by (simp add: bitLength.simps)
    have pos: "0 < bitLength (n div 2)" using h by (simp add: bitLength.simps)
    then obtain m where m: "bitLength (n div 2) = Suc m" by (cases "bitLength (n div 2)") simp_all
    have "2 * 2 ^ m \<le> 2 * (n div 2)" using ih m by simp
    also have "\<dots> \<le> n" by presburger
    finally have lo: "2 ^ (bitLength n - 1) \<le> n" using bl m by simp
    have "n div 2 + 1 \<le> 2 ^ bitLength (n div 2)" using ih by simp
    then have "2 * (n div 2) + 2 \<le> 2 * 2 ^ bitLength (n div 2)" by simp
    moreover have "n < 2 * (n div 2) + 2" by presburger
    ultimately have "n < 2 ^ bitLength n" using bl by simp
    then show ?thesis using lo by simp
  qed
qed

lemma floorLog2_bounds:
  assumes "0 < x"
  shows "2 powi (floorLog2 x) \<le> x \<and> x < 2 powi (floorLog2 x + 1)"
proof (cases "1 \<le> x")
  case True
  let ?n = "\<lfloor>x\<rfloor>"
  have n: "0 < ?n" using True by simp
  have b: "2 ^ (bitLength ?n - 1) \<le> ?n" "?n < 2 ^ bitLength ?n" using bitLength_bounds[OF n] by simp_all
  have pos: "0 < bitLength ?n" using n by (simp add: bitLength.simps)
  have e: "floorLog2 x = int (bitLength ?n - 1)" using True pos by (simp add: floorLog2_def)
  have "real_of_int (2 ^ (bitLength ?n - 1)) \<le> real_of_int ?n" using b(1) by (simp only: of_int_le_iff)
  also have "\<dots> \<le> x" by simp
  finally have lo: "2 ^ (bitLength ?n - 1) \<le> x" by simp
  have "?n + 1 \<le> 2 ^ bitLength ?n" using b(2) by simp
  then have "real_of_int (?n + 1) \<le> real_of_int (2 ^ bitLength ?n)" by (simp only: of_int_le_iff)
  then have "real_of_int ?n + 1 \<le> 2 ^ bitLength ?n" by simp
  moreover have "x < real_of_int ?n + 1" by linarith
  ultimately have hi: "x < 2 ^ bitLength ?n" by linarith
  have e2: "floorLog2 x + 1 = int (bitLength ?n)" using e pos by simp
  have p1: "(2::real) powi (floorLog2 x) = 2 ^ (bitLength ?n - 1)"
    unfolding e by (rule power_int_of_nat)
  have p2: "(2::real) powi (floorLog2 x + 1) = 2 ^ bitLength ?n"
    unfolding e2 by (rule power_int_of_nat)
  show ?thesis using lo hi unfolding p1 p2 by simp
next
  case False
  then have x1: "x < 1" by simp
  let ?y = "1 / x"
  let ?c = "\<lceil>?y\<rceil>"
  have y1: "1 < ?y" using assms x1 by simp
  then have c2: "2 \<le> ?c" by linarith
  let ?k = "bitLength (?c - 1)"
  have cpos: "0 < ?c - 1" using c2 by simp
  have b: "2 ^ (?k - 1) \<le> ?c - 1" "?c - 1 < 2 ^ ?k" using bitLength_bounds[OF cpos] by simp_all
  have kpos: "0 < ?k" using cpos by (simp add: bitLength.simps)
  have e: "floorLog2 x = - int ?k" using False by (simp add: floorLog2_def)
  have "?c \<le> 2 ^ ?k" using b(2) by simp
  then have "real_of_int ?c \<le> real_of_int (2 ^ ?k)" by (simp only: of_int_le_iff)
  then have "real_of_int ?c \<le> 2 ^ ?k" by simp
  moreover have "?y \<le> real_of_int ?c" by linarith
  ultimately have "?y \<le> 2 ^ ?k" by linarith
  then have "1 \<le> 2 ^ ?k * x" using assms by (simp add: field_simps)
  then have lo: "1 / 2 ^ ?k \<le> x" by (simp add: field_simps)
  have "real_of_int (2 ^ (?k - 1)) \<le> real_of_int (?c - 1)" using b(1) by (simp only: of_int_le_iff)
  then have "2 ^ (?k - 1) \<le> real_of_int ?c - 1" by simp
  moreover have "real_of_int ?c - 1 < ?y" by linarith
  ultimately have "2 ^ (?k - 1) < ?y" by linarith
  then have "2 ^ (?k - 1) * x < 1" using assms by (simp add: field_simps)
  then have hi: "x < 1 / 2 ^ (?k - 1)" by (simp add: field_simps)
  obtain m where m: "?k = Suc m" using kpos by (cases ?k) simp_all
  have p1: "(2::real) powi (- int ?k) = 1 / 2 ^ ?k"
    by (simp add: power_int_minus divide_inverse)
  have "- int ?k + 1 = - int m" using m by simp
  then have "(2::real) powi (- int ?k + 1) = 2 powi (- int m)" by simp
  also have "\<dots> = 1 / 2 ^ m" by (simp add: power_int_minus divide_inverse)
  finally have p2: "(2::real) powi (- int ?k + 1) = 1 / 2 ^ (?k - 1)" using m by simp
  show ?thesis using lo hi unfolding e p1 p2 by simp
qed





lemma tenth64_is_float: "b64 tenth64 = tenth64 \<and> b64 (1 / 10) = tenth64"
  by (simp add: tenth64_def b64_def roundHalfEven_def floorLog2_def bitLength.simps Let_def)




section \<open>Error policy of the snapshot\<close>

lemma toUpperChar_idem: "toUpperChar (toUpperChar c) = toUpperChar c"
proof (cases "97 \<le> (of_char c :: nat) \<and> (of_char c :: nat) \<le> 122")
  case True
  define n :: nat where "n = of_char c"
  have r: "97 \<le> n" "n \<le> 122" using True by (simp_all add: n_def)
  then have "n - 32 < 256" by arith
  then have "(of_char (char_of (n - 32)) :: nat) = n - 32" by simp
  moreover have "\<not> 97 \<le> n - 32" using r by arith
  ultimately have "toUpperChar (char_of (n - 32)) = char_of (n - 32)"
    by (simp add: toUpperChar_def)
  moreover have "toUpperChar c = char_of (n - 32)" using True by (simp add: toUpperChar_def n_def)
  ultimately show ?thesis by simp
next
  case False
  then have "toUpperChar c = c" unfolding toUpperChar_def by (simp only: if_False)
  then show ?thesis by simp
qed

lemma map_toUpperChar_idem: "map toUpperChar (map toUpperChar s) = map toUpperChar s"
  by (induction s) (simp_all add: toUpperChar_idem)

lemma toUpper_USDT: "map toUpperChar ''USDT'' = ''USDT''"
  by (simp add: toUpperChar_def)

lemma Normalize_idem: "Normalize (Normalize s) = Normalize s"
proof (cases "hasSuffixUSDT (map toUpperChar s)")
  case True
  then have n: "Normalize s = map toUpperChar s" by (simp add: Normalize_def Let_def)
  have "Normalize (map toUpperChar s) = map toUpperChar s"
    unfolding Normalize_def Let_def map_toUpperChar_idem using True by simp
  then show ?thesis by (simp only: n)
next
  case False
  then have n: "Normalize s = map toUpperChar s @ ''USDT''" by (simp add: Normalize_def Let_def)
  have u: "map toUpperChar (map toUpperChar s @ ''USDT'') = map toUpperChar s @ ''USDT''"
    by (simp only: map_append map_toUpperChar_idem toUpper_USDT)
  have h: "hasSuffixUSDT (map toUpperChar s @ ''USDT'')" by (simp add: hasSuffixUSDT_def)
  have "Normalize (map toUpperChar s @ ''USDT'') = map toUpperChar s @ ''USDT''"
    unfolding Normalize_def Let_def u using h by simp
  then show ?thesis by (simp only: n)
qed

lemma assemble_ok:
  assumes "klines3m \<noteq> []"
  shows "\<exists>d. outcome (assemble e st symb exchange klines3m klines15m klines1h klines4h) = Inr d \<and>
             OpenInterest d = Some (fst (snd (fetchOI e st symb exchange))) \<and>
             FundingRate d = (case getFundingRate e symb of Inl err \<Rightarrow> 0 | Inr rate \<Rightarrow> rate)"
    and "calls (assemble e st symb exchange klines3m klines15m klines1h klines4h) =
           fst (fetchOI e st symb exchange) @ [CallFunding symb]"
  using assms by (simp_all add: assemble_def Let_def)

lemma fetchOI_failed:
  "(exchange = ''hyperliquid'' \<longrightarrow> isl (answer (hyperliquidLookup e st symb))) \<and>
   (exchange \<noteq> ''hyperliquid'' \<longrightarrow> isl (getOpenInterestData e symb)) \<Longrightarrow>
   fst (snd (fetchOI e st symb exchange)) = zeroOI"
  by (auto simp: fetchOI_def isl_def Let_def)

lemma fetchOI_excluded:
  "\<not> isInDefaultCoins (defaultCoins e) symb \<Longrightarrow> fetchOI e st symb exchange = ([], zeroOI, st)"
  by (simp add: fetchOI_def)

lemma Get_all_fetched:
  assumes "getKlines e (Normalize symbol0) ''3m'' 150 = Inr k3"
    "getKlines e (Normalize symbol0) ''15m'' 150 = Inr k15"
    "getKlines e (Normalize symbol0) ''1h'' 150 = Inr k1h"
    "getKlines e (Normalize symbol0) ''4h'' 150 = Inr k4h"
  shows "outcome (Get e st symbol0 exchange) =
           outcome (assemble e st (Normalize symbol0) exchange k3 k15 k1h k4h)"
    and "calls (Get e st symbol0 exchange) =
     [CallKlines (Normalize symbol0) ''3m'', CallKlines (Normalize symbol0) ''15m'',
      CallKlines (Normalize symbol0) ''1h'', CallKlines (Normalize symbol0) ''4h''] @
     calls (assemble e st (Normalize symbol0) exchange k3 k15 k1h k4h)"
  using assms by (simp_all add: Get_def Let_def)

text \<open>
  C8. In \<open>Get\<close> the first candle fetch that fails (3m, 15m, 1h, 4h, in this order) ends
  the call with the error that names its interval, and no snapshot. When the four fetches
  succeed (and the 3m series is not empty) the result is a snapshot whatever the open
  interest and funding fetches return: a failed open-interest fetch leaves the zero
  \<open>OIData\<close>, a failed funding fetch leaves the rate 0. When an allow-set is configured and
  does not hold the normalized symbol, the zero \<open>OIData\<close> is used and no open-interest
  network call is issued.
\<close>

theorem snapshot_error_policy:
  "(getKlines e (Normalize symbol0) ''3m'' 150 = Inl err \<longrightarrow>
      outcome (Get e st symbol0 exchange) = Inl (KlinesFailed ''3m'' err)) \<and>
   (getKlines e (Normalize symbol0) ''3m'' 150 = Inr k3 \<and>
    getKlines e (Normalize symbol0) ''15m'' 150 = Inl err \<longrightarrow>
      outcome (Get e st symbol0 exchange) = Inl (KlinesFailed ''15m'' err)) \<and>
   (getKlines e (Normalize symbol0) ''3m'' 150 = Inr k3 \<and>
    getKlines e (Normalize symbol0) ''15m'' 150 = Inr k15 \<and>
    getKlines e (Normalize symbol0) ''1h'' 150 = Inl err \<longrightarrow>
      outcome (Get e st symbol0 exchange) = Inl (KlinesFailed ''1h'' err)) \<and>
   (getKlines e (Normalize symbol0) ''3m'' 150 = Inr k3 \<and>
    getKlines e (Normalize symbol0) ''15m'' 150 = Inr k15 \<and>
    getKlines e (Normalize symbol0) ''1h'' 150 = Inr k1h \<and>
    getKlines e (Normalize symbol0) ''4h'' 150 = Inl err \<longrightarrow>
      outcome (Get e st symbol0 exchange) = Inl (KlinesFailed ''4h'' err)) \<and>
   (getKlines e (Normalize symbol0) ''3m'' 150 = Inr k3 \<and> k3 \<noteq> [] \<and>
    getKlines e (Normalize symbol0) ''15m'' 150 = Inr k15 \<and>
    getKlines e (Normalize symbol0) ''1h'' 150 = Inr k1h \<and>
    getKlines e (Normalize symbol0) ''4h'' 150 = Inr k4h \<longrightarrow>
      (\<exists>d. outcome (Get e st symbol0 exchange) = Inr d \<and>
           ((exchange = ''hyperliquid'' \<longrightarrow>
               isl (answer (hyperliquidLookup e st (Normalize symbol0)))) \<and>
            (exchange \<noteq> ''hyperliquid'' \<longrightarrow> isl (getOpenInterestData e (Normalize symbol0))) \<longrightarrow>
              OpenInterest d = Some \<lparr>Latest = 0, Average = 0\<rparr>) \<and>
           (isl (getFundingRate e (Normalize symbol0)) \<longrightarrow> FundingRate d = 0) \<and>
           (defaultCoins e \<noteq> {} \<and> Normalize symbol0 \<notin> defaultCoins e \<longrightarrow>
              OpenInterest d = Some \<lparr>Latest = 0, Average = 0\<rparr> \<and>
              \<not> list_ex isOICall (calls (Get e st symbol0 exchange)))))"
proof -
  let ?sym = "Normalize symbol0"
  have c1: "outcome (Get e st symbol0 exchange) = Inl (KlinesFailed ''3m'' err)"
    if "getKlines e ?sym ''3m'' 150 = Inl err"
    using that by (simp add: Get_def Let_def)
  have c2: "outcome (Get e st symbol0 exchange) = Inl (KlinesFailed ''15m'' err)"
    if "getKlines e ?sym ''3m'' 150 = Inr k3 \<and> getKlines e ?sym ''15m'' 150 = Inl err"
    using that by (simp add: Get_def Let_def)
  have c3: "outcome (Get e st symbol0 exchange) = Inl (KlinesFailed ''1h'' err)"
    if "getKlines e ?sym ''3m'' 150 = Inr k3 \<and> getKlines e ?sym ''15m'' 150 = Inr k15 \<and>
        getKlines e ?sym ''1h'' 150 = Inl err"
    using that by (simp add: Get_def Let_def)
  have c4: "outcome (Get e st symbol0 exchange) = Inl (KlinesFailed ''4h'' err)"
    if "getKlines e ?sym ''3m'' 150 = Inr k3 \<and> getKlines e ?sym ''15m'' 150 = Inr k15 \<and>
        getKlines e ?sym ''1h'' 150 = Inr k1h \<and> getKlines e ?sym ''4h'' 150 = Inl err"
    using that by (simp add: Get_def Let_def)
  have c5: "\<exists>d. outcome (Get e st symbol0 exchange) = Inr d \<and>
           ((exchange = ''hyperliquid'' \<longrightarrow> isl (answer (hyperliquidLookup e st ?sym))) \<and>
            (exchange \<noteq> ''hyperliquid'' \<longrightarrow> isl (getOpenInterestData e ?sym)) \<longrightarrow>
              OpenInterest d = Some \<lparr>Latest = 0, Average = 0\<rparr>) \<and>
           (isl (getFundingRate e ?sym) \<longrightarrow> FundingRate d = 0) \<and>
           (defaultCoins e \<noteq> {} \<and> ?sym \<notin> defaultCoins e \<longrightarrow>
              OpenInterest d = Some \<lparr>Latest = 0, Average = 0\<rparr> \<and>
              \<not> list_ex isOICall (calls (Get e st symbol0 exchange)))"
    if h: "getKlines e ?sym ''3m'' 150 = Inr k3 \<and> k3 \<noteq> [] \<and>
        getKlines e ?sym ''15m'' 150 = Inr k15 \<and> getKlines e ?sym ''1h'' 150 = Inr k1h \<and>
        getKlines e ?sym ''4h'' 150 = Inr k4h"
  proof -
    have g: "outcome (Get e st symbol0 exchange) =
               outcome (assemble e st ?sym exchange k3 k15 k1h k4h)"
      using h by (intro Get_all_fetched(1)) simp_all
    have gc: "calls (Get e st symbol0 exchange) =
       [CallKlines ?sym ''3m'', CallKlines ?sym ''15m'', CallKlines ?sym ''1h'',
        CallKlines ?sym ''4h''] @ calls (assemble e st ?sym exchange k3 k15 k1h k4h)"
      using h by (intro Get_all_fetched(2)) simp_all
    have ne: "k3 \<noteq> []" using h by simp
    obtain d where d: "outcome (assemble e st ?sym exchange k3 k15 k1h k4h) = Inr d"
      "OpenInterest d = Some (fst (snd (fetchOI e st ?sym exchange)))"
      "FundingRate d = (case getFundingRate e ?sym of Inl err \<Rightarrow> 0 | Inr rate \<Rightarrow> rate)"
      using assemble_ok(1)[OF ne] by blast
    have cl: "calls (Get e st symbol0 exchange) =
       [CallKlines ?sym ''3m'', CallKlines ?sym ''15m'', CallKlines ?sym ''1h'',
        CallKlines ?sym ''4h''] @ fst (fetchOI e st ?sym exchange) @ [CallFunding ?sym]"
      using gc assemble_ok(2)[OF ne] by simp
    have oi: "OpenInterest d = Some \<lparr>Latest = 0, Average = 0\<rparr>"
      if "(exchange = ''hyperliquid'' \<longrightarrow> isl (answer (hyperliquidLookup e st ?sym))) \<and>
          (exchange \<noteq> ''hyperliquid'' \<longrightarrow> isl (getOpenInterestData e ?sym))"
      using fetchOI_failed[OF that] d(2) by (simp add: zeroOI_def)
    have fr: "FundingRate d = 0" if "isl (getFundingRate e ?sym)"
      using that d(3) by (auto simp: isl_def)
    have ex: "OpenInterest d = Some \<lparr>Latest = 0, Average = 0\<rparr> \<and>
              \<not> list_ex isOICall (calls (Get e st symbol0 exchange))"
      if "defaultCoins e \<noteq> {} \<and> ?sym \<notin> defaultCoins e"
    proof -
      have "\<not> isInDefaultCoins (defaultCoins e) ?sym"
        using that by (simp add: isInDefaultCoins_def Normalize_idem)
      then have "fetchOI e st ?sym exchange = ([], zeroOI, st)" by (rule fetchOI_excluded)
      then show ?thesis using d(2) cl by (simp add: zeroOI_def isOICall_def)
    qed
    show ?thesis using g d(1) oi fr ex by auto
  qed
  show ?thesis using c1 c2 c3 c4 c5 by blast
qed

lemma norm_btc: "Normalize ''btc'' = ''BTCUSDT''"
  by code_simp

theorem snapshot_error_policy_witness:
  "outcome (Get (exEnv ''1h'' {}) emptyCache ''btc'' ''binance'') = Inl (KlinesFailed ''1h'' ''timeout'') \<and>
   (\<exists>d. outcome (Get (exEnv ''none'' {''ETHUSDT''}) emptyCache ''btc'' ''hyperliquid'') = Inr d \<and>
        OpenInterest d = Some \<lparr>Latest = 0, Average = 0\<rparr> \<and> FundingRate d = 0) \<and>
   \<not> list_ex isOICall (calls (Get (exEnv ''none'' {''ETHUSDT''}) emptyCache ''btc'' ''hyperliquid'')) \<and>
   (\<exists>d. outcome (Get (exEnv ''none'' {}) emptyCache ''btc'' ''hyperliquid'') = Inr d \<and>
        OpenInterest d = Some \<lparr>Latest = 0, Average = 0\<rparr> \<and> FundingRate d = 0)"
proof -
  have ne: "dipCandles \<noteq> []" by (simp add: dipCandles_def)
  have a: "outcome (Get (exEnv ''1h'' {}) emptyCache ''btc'' ''binance'') = Inl (KlinesFailed ''1h'' ''timeout'')"
    using snapshot_error_policy[where e = "exEnv ''1h'' {}" and st = emptyCache and ?symbol0.0 = "''btc''"
        and err = "''timeout''" and exchange = "''binance''" and ?k3.0 = dipCandles
        and ?k15.0 = dipCandles and ?k1h.0 = dipCandles and ?k4h.0 = dipCandles]
    by (simp add: exEnv_def)
  have b: "\<exists>d. outcome (Get (exEnv ''none'' {''ETHUSDT''}) emptyCache ''btc'' ''hyperliquid'') = Inr d \<and>
        OpenInterest d = Some \<lparr>Latest = 0, Average = 0\<rparr> \<and> FundingRate d = 0"
    and c: "\<not> list_ex isOICall (calls (Get (exEnv ''none'' {''ETHUSDT''}) emptyCache ''btc'' ''hyperliquid''))"
    using snapshot_error_policy[where e = "exEnv ''none'' {''ETHUSDT''}" and st = emptyCache and ?symbol0.0 = "''btc''"
        and err = "''timeout''" and exchange = "''hyperliquid''" and ?k3.0 = dipCandles
        and ?k15.0 = dipCandles and ?k1h.0 = dipCandles and ?k4h.0 = dipCandles] ne
    by (auto simp: exEnv_def norm_btc)
  have d: "\<exists>d. outcome (Get (exEnv ''none'' {}) emptyCache ''btc'' ''hyperliquid'') = Inr d \<and>
        OpenInterest d = Some \<lparr>Latest = 0, Average = 0\<rparr> \<and> FundingRate d = 0"
    using snapshot_error_policy[where e = "exEnv ''none'' {}" and st = emptyCache and ?symbol0.0 = "''btc''"
        and err = "''timeout''" and exchange = "''hyperliquid''" and ?k3.0 = dipCandles
        and ?k15.0 = dipCandles and ?k1h.0 = dipCandles and ?k4h.0 = dipCandles] ne
    by (auto simp: exEnv_def norm_btc hyperliquidLookup_def getHyperliquidOpenInterestData_def
        lockedSection_def cachedOI_def cacheValid_def emptyCache_def)
  show ?thesis using a b c d by (intro conjI)
qed

section \<open>Refresh policy of the open-interest cache\<close>

lemma cachedOI_hit:
  "cacheValid now st \<Longrightarrow> hyperliquidOICache st s = Some oi \<Longrightarrow> cachedOI now st s = Some (oiOf oi)"
  by (simp add: cachedOI_def)

lemma cachedOI_absent: "hyperliquidOICache st s = None \<Longrightarrow> cachedOI now st s = None"
  by (simp add: cachedOI_def)

lemma cachedOI_stale: "\<not> cacheValid now st \<Longrightarrow> cachedOI now st s = None"
  by (simp add: cachedOI_def)

lemma lookup_hit:
  assumes "cacheValid n1 st" "hyperliquidOICache st s = Some oi"
  shows "getHyperliquidOpenInterestData st n1 n2 n3 resp s =
           \<lparr>newState = st, upstreamCalls = 0, answer = Inr (oiOf oi)\<rparr>"
  by (simp add: getHyperliquidOpenInterestData_def cachedOI_hit[OF assms])

lemma locked_hit:
  assumes "cacheValid n2 st" "hyperliquidOICache st s = Some oi"
  shows "lockedSection st n2 n3 resp s =
           \<lparr>newState = st, upstreamCalls = 0, answer = Inr (oiOf oi)\<rparr>"
  by (simp add: lockedSection_def cachedOI_hit[OF assms])

lemma runLookups_all_hits:
  "list_all (\<lambda>c. cacheValid (readClock c) st \<and> callerSymbol c \<in> dom (hyperliquidOICache st)) cs \<Longrightarrow>
   runLookups st cs = (st, 0)"
proof (induction cs)
  case Nil then show ?case by simp
next
  case (Cons c cs)
  then obtain oi where "cacheValid (readClock c) st" "hyperliquidOICache st (callerSymbol c) = Some oi"
    by auto
  then have "getHyperliquidOpenInterestData st (readClock c) (lockClock c) (refreshClock c)
               (upstream c) (callerSymbol c) =
             \<lparr>newState = st, upstreamCalls = 0, answer = Inr (oiOf oi)\<rparr>"
    by (rule lookup_hit)
  then show ?case using Cons by (simp add: Let_def)
qed

lemma runLocked_all_hits:
  "list_all (\<lambda>c. cacheValid (lockClock c) st \<and> callerSymbol c \<in> dom (hyperliquidOICache st)) cs \<Longrightarrow>
   runLocked st cs = (st, 0)"
proof (induction cs)
  case Nil then show ?case by simp
next
  case (Cons c cs)
  then obtain oi where "cacheValid (lockClock c) st" "hyperliquidOICache st (callerSymbol c) = Some oi"
    by auto
  then have "lockedSection st (lockClock c) (refreshClock c) (upstream c) (callerSymbol c) =
             \<lparr>newState = st, upstreamCalls = 0, answer = Inr (oiOf oi)\<rparr>"
    by (rule locked_hit)
  then show ?case using Cons by (simp add: Let_def)
qed

lemma locked_refresh:
  assumes "cachedOI n2 st s = None"
  shows "lockedSection st n2 n3 (Inr T) s =
           \<lparr>newState = \<lparr>hyperliquidOICache = T, hyperliquidOICacheTime = Some n3\<rparr>,
            upstreamCalls = 1,
            answer = Inr (case T s of Some oi \<Rightarrow> oiOf oi | None \<Rightarrow> zeroOI)\<rparr>"
  using assms by (simp add: lockedSection_def)

lemma one_refresh_for_queued_callers:
  assumes "\<not> cacheValid (lockClock c) st" "upstream c = Inr T"
    "list_all (\<lambda>c'. lockClock c' - refreshClock c < hyperliquidOICacheTTL \<and>
                     callerSymbol c' \<in> dom T) cs"
  shows "runLocked st (c # cs) =
           (\<lparr>hyperliquidOICache = T, hyperliquidOICacheTime = Some (refreshClock c)\<rparr>, 1)"
proof -
  let ?st' = "\<lparr>hyperliquidOICache = T, hyperliquidOICacheTime = Some (refreshClock c)\<rparr>"
  have r: "lockedSection st (lockClock c) (refreshClock c) (upstream c) (callerSymbol c) =
           \<lparr>newState = ?st', upstreamCalls = 1,
            answer = Inr (case T (callerSymbol c) of Some oi \<Rightarrow> oiOf oi | None \<Rightarrow> zeroOI)\<rparr>"
    unfolding assms(2) by (rule locked_refresh) (rule cachedOI_stale[OF assms(1)])
  have "list_all (\<lambda>c'. cacheValid (lockClock c') ?st' \<and>
                        callerSymbol c' \<in> dom (hyperliquidOICache ?st')) cs"
    using assms(3) by (simp add: cacheValid_def list_all_iff)
  then have "runLocked ?st' cs = (?st', 0)" by (rule runLocked_all_hits)
  then show ?thesis using r by (simp add: Let_def)
qed

lemma absent_symbol_always_fetches:
  assumes "hyperliquidOICache st s = None"
  shows "upstreamCalls (getHyperliquidOpenInterestData st n1 n2 n3 resp s) = 1"
  by (cases resp)
     (simp_all add: getHyperliquidOpenInterestData_def lockedSection_def cachedOI_absent[OF assms])

lemma stale_later:
  "\<not> cacheValid n1 st \<Longrightarrow> n1 \<le> n2 \<Longrightarrow> \<not> cacheValid n2 st"
  by (simp add: cacheValid_def split: option.splits)

lemma lookup_stale:
  assumes "\<not> cacheValid n1 st" "n1 \<le> n2"
  shows "getHyperliquidOpenInterestData st n1 n2 n3 resp s = lockedSection st n2 n3 resp s"
    and "lockedSection st n2 n3 (Inr T) s =
           \<lparr>newState = \<lparr>hyperliquidOICache = T, hyperliquidOICacheTime = Some n3\<rparr>,
            upstreamCalls = 1,
            answer = Inr (case T s of Some oi \<Rightarrow> oiOf oi | None \<Rightarrow> zeroOI)\<rparr>"
    and "lockedSection st n2 n3 (Inl err) s =
           \<lparr>newState = st, upstreamCalls = 1, answer = Inl err\<rparr>"
  using cachedOI_stale[OF assms(1), of s] cachedOI_stale[OF stale_later[OF assms], of s]
  by (simp_all add: getHyperliquidOpenInterestData_def lockedSection_def)

lemma refreshed_step:
  assumes r: "refreshed cs r"
    and ok: "\<forall>c\<in>set cs. \<forall>T. upstream c = Inr T \<longrightarrow> (\<forall>c'\<in>set cs. callerSymbol c' \<in> dom T)"
    and tm: "\<forall>c\<in>set cs. \<forall>c'\<in>set cs. lockClock c' - refreshClock c < hyperliquidOICacheTTL"
    and e: "case e of ReadSection i \<Rightarrow> i < length cs | LockSection i \<Rightarrow> i < length cs"
  shows "refreshed cs (stepEvent cs r e)"
proof (cases e)
  case (ReadSection i)
  then show ?thesis using r by (simp add: stepEvent_def refreshed_def split: option.splits)
next
  case (LockSection i)
  then have i: "cs ! i \<in> set cs" using e by simp
  from r obtain c T where c: "c \<in> set cs" "upstream c = Inr T"
    "shared r = \<lparr>hyperliquidOICache = T, hyperliquidOICacheTime = Some (refreshClock c)\<rparr>"
    unfolding refreshed_def by blast
  have v: "cacheValid (lockClock (cs ! i)) (shared r)"
    using tm c(1) i by (simp add: c(3) cacheValid_def)
  from ok c(1,2) i have "callerSymbol (cs ! i) \<in> dom T" by blast
  then obtain oi where "hyperliquidOICache (shared r) (callerSymbol (cs ! i)) = Some oi"
    unfolding c(3) by auto
  then have "lockedSection (shared r) (lockClock (cs ! i)) (refreshClock (cs ! i))
               (upstream (cs ! i)) (callerSymbol (cs ! i)) =
             \<lparr>newState = shared r, upstreamCalls = 0, answer = Inr (oiOf oi)\<rparr>"
    using v by (simp add: locked_hit)
  then show ?thesis
    using r LockSection by (simp add: stepEvent_def refreshed_def Let_def)
qed

lemma refreshed_steps:
  assumes ok: "\<forall>c\<in>set cs. \<forall>T. upstream c = Inr T \<longrightarrow> (\<forall>c'\<in>set cs. callerSymbol c' \<in> dom T)"
    and tm: "\<forall>c\<in>set cs. \<forall>c'\<in>set cs. lockClock c' - refreshClock c < hyperliquidOICacheTTL"
  shows "refreshed cs r \<Longrightarrow>
     list_all (\<lambda>e. case e of ReadSection i \<Rightarrow> i < length cs | LockSection i \<Rightarrow> i < length cs) es \<Longrightarrow>
     refreshed cs (foldl (stepEvent cs) r es)"
proof (induction es arbitrary: r)
  case Nil then show ?case by simp
next
  case (Cons e es)
  have "refreshed cs (stepEvent cs r e)"
    using refreshed_step[OF Cons.prems(1) ok tm, of e] Cons.prems(2) by simp
  then show ?case using Cons.IH Cons.prems(2) by simp
qed

lemma stale_reads:
  assumes st: "\<forall>c\<in>set cs. \<not> cacheValid (readClock c) st"
  shows "shared r = st \<Longrightarrow>
     list_all (\<lambda>e. case e of ReadSection i \<Rightarrow> i < length cs | LockSection i \<Rightarrow> False) es \<Longrightarrow>
     shared (foldl (stepEvent cs) r es) = st \<and>
     fetches (foldl (stepEvent cs) r es) = fetches r \<and>
     set (waiting (foldl (stepEvent cs) r es)) =
       set (waiting r) \<union> {i. ReadSection i \<in> set es}"
proof (induction es arbitrary: r)
  case Nil then show ?case by simp
next
  case (Cons e es)
  from Cons.prems(2) obtain i where e: "e = ReadSection i" "i < length cs"
    by (cases e) simp_all
  then have "\<not> cacheValid (readClock (cs ! i)) st" using st by simp
  then have s: "stepEvent cs r e = r\<lparr>waiting := i # waiting r\<rparr>"
    using Cons.prems(1) e by (simp add: stepEvent_def cachedOI_stale)
  have "shared (stepEvent cs r e) = st" using s Cons.prems(1) by simp
  from Cons.IH[OF this] Cons.prems(2) s e show ?case by auto
qed

lemma first_lock_section:
  assumes "schedule n es" "0 < n"
  shows "\<exists>pre i post. es = pre @ LockSection i # post \<and> i < n \<and> ReadSection i \<in> set pre \<and>
           list_all (\<lambda>e. case e of ReadSection i \<Rightarrow> i < n | LockSection i \<Rightarrow> False) pre \<and>
           list_all (\<lambda>e. case e of ReadSection i \<Rightarrow> i < n | LockSection i \<Rightarrow> i < n) post"
proof -
  from assms have d: "distinct es"
    and b: "list_all (\<lambda>e. case e of ReadSection i \<Rightarrow> i < n | LockSection i \<Rightarrow> i < n) es"
    and a: "\<forall>i<n. LockSection i \<in> set (dropWhile (\<lambda>e. e \<noteq> ReadSection i) es)"
    by (simp_all add: schedule_def list_all_iff)
  from a assms(2) have "LockSection 0 \<in> set es" using set_dropWhileD by fastforce
  then have "\<exists>e\<in>set es. \<exists>i. e = LockSection i" by blast
  then obtain pre e post where sp: "es = pre @ e # post" "\<exists>i. e = LockSection i"
    "\<forall>y\<in>set pre. \<not> (\<exists>i. y = LockSection i)"
    using split_list_first_prop[of es "\<lambda>e. \<exists>i. e = LockSection i"] by blast
  then obtain i where i: "e = LockSection i" by blast
  have lt: "i < n" using b sp(1) i by simp
  have pre: "list_all (\<lambda>e. case e of ReadSection i \<Rightarrow> i < n | LockSection i \<Rightarrow> False) pre"
    using b sp(1,3) by (auto simp: list_all_iff split: event.splits)
  have post: "list_all (\<lambda>e. case e of ReadSection i \<Rightarrow> i < n | LockSection i \<Rightarrow> i < n) post"
    using b sp(1) by simp
  have "ReadSection i \<in> set pre"
  proof (rule ccontr)
    assume n: "ReadSection i \<notin> set pre"
    then have "dropWhile (\<lambda>e. e \<noteq> ReadSection i) es = dropWhile (\<lambda>e. e \<noteq> ReadSection i) post"
      unfolding sp(1) i by (simp add: dropWhile_append)
    then have "LockSection i \<in> set post" using a lt set_dropWhileD by fastforce
    then show False using d sp(1) i by simp
  qed
  then show ?thesis using sp(1) i lt pre post by blast
qed

lemma one_fetch_for_concurrent_callers:
  assumes sch: "schedule (length cs) es" and ne: "cs \<noteq> []"
    and stale: "\<forall>c\<in>set cs. \<not> cacheValid (readClock c) st \<and> \<not> cacheValid (lockClock c) st"
    and up: "\<forall>c\<in>set cs. \<exists>T. upstream c = Inr T \<and> (\<forall>c'\<in>set cs. callerSymbol c' \<in> dom T)"
    and tm: "\<forall>c\<in>set cs. \<forall>c'\<in>set cs. lockClock c' - refreshClock c < hyperliquidOICacheTTL"
  shows "fetches (runSchedule st cs es) = 1"
proof -
  let ?r0 = "\<lparr>shared = st, fetches = 0, waiting = []\<rparr>"
  from first_lock_section[OF sch] ne obtain pre i post where
    es: "es = pre @ LockSection i # post" and i: "i < length cs" "ReadSection i \<in> set pre"
    and pre: "list_all (\<lambda>e. case e of ReadSection i \<Rightarrow> i < length cs | LockSection i \<Rightarrow> False) pre"
    and post: "list_all (\<lambda>e. case e of ReadSection i \<Rightarrow> i < length cs
                              | LockSection i \<Rightarrow> i < length cs) post"
    by auto
  let ?r1 = "foldl (stepEvent cs) ?r0 pre"
  have r1: "shared ?r1 = st" "fetches ?r1 = 0" "i \<in> set (waiting ?r1)"
    using stale_reads[of cs st ?r0 pre] stale pre i(2) by simp_all
  have ci: "cs ! i \<in> set cs" using i(1) by simp
  then obtain T where T: "upstream (cs ! i) = Inr T" using up by blast
  have "\<not> cacheValid (lockClock (cs ! i)) st" using stale ci by blast
  then have "lockedSection st (lockClock (cs ! i)) (refreshClock (cs ! i)) (upstream (cs ! i))
               (callerSymbol (cs ! i)) =
             \<lparr>newState = \<lparr>hyperliquidOICache = T,
                           hyperliquidOICacheTime = Some (refreshClock (cs ! i))\<rparr>,
              upstreamCalls = 1,
              answer = Inr (case T (callerSymbol (cs ! i)) of Some oi \<Rightarrow> oiOf oi
                            | None \<Rightarrow> zeroOI)\<rparr>"
    unfolding T by (intro locked_refresh cachedOI_stale)
  then have "refreshed cs (stepEvent cs ?r1 (LockSection i))"
    using r1 ci T by (auto simp: stepEvent_def refreshed_def Let_def)
  moreover have ok: "\<forall>c\<in>set cs. \<forall>T. upstream c = Inr T \<longrightarrow> (\<forall>c'\<in>set cs. callerSymbol c' \<in> dom T)"
    using up by fastforce
  ultimately have "refreshed cs (foldl (stepEvent cs) (stepEvent cs ?r1 (LockSection i)) post)"
    using refreshed_steps[OF ok tm _ post] by blast
  then show ?thesis by (simp add: runSchedule_def es refreshed_def)
qed

lemma caller_sections:
  "foldl (stepEvent cs) \<lparr>shared = st, fetches = n, waiting = []\<rparr>
     [ReadSection k, LockSection k] =
   \<lparr>shared = newState (getHyperliquidOpenInterestData st (readClock (cs ! k)) (lockClock (cs ! k))
                (refreshClock (cs ! k)) (upstream (cs ! k)) (callerSymbol (cs ! k))),
    fetches = n + upstreamCalls (getHyperliquidOpenInterestData st (readClock (cs ! k))
                (lockClock (cs ! k)) (refreshClock (cs ! k)) (upstream (cs ! k))
                (callerSymbol (cs ! k))),
    waiting = []\<rparr>"
  by (simp add: stepEvent_def getHyperliquidOpenInterestData_def Let_def split: option.splits)

lemma sequential_schedule_from:
  "k \<le> length cs \<Longrightarrow>
   foldl (stepEvent cs) \<lparr>shared = st, fetches = n, waiting = []\<rparr>
     (concat (map (\<lambda>i. [ReadSection i, LockSection i]) [k ..< length cs])) =
   \<lparr>shared = fst (runLookups st (drop k cs)),
    fetches = n + snd (runLookups st (drop k cs)), waiting = []\<rparr>"
proof (induction "length cs - k" arbitrary: k st n)
  case 0
  then show ?case by simp
next
  case (Suc d)
  then have k: "k < length cs" "d = length cs - Suc k" "Suc k \<le> length cs" by simp_all
  have u: "[k ..< length cs] = k # [Suc k ..< length cs]" using k(1) by (rule upt_conv_Cons)
  have dr: "drop k cs = cs ! k # drop (Suc k) cs" using k(1) by (rule Cons_nth_drop_Suc[symmetric])
  have "foldl (stepEvent cs) \<lparr>shared = st, fetches = n, waiting = []\<rparr>
          (concat (map (\<lambda>i. [ReadSection i, LockSection i]) [k ..< length cs])) =
        foldl (stepEvent cs)
          (foldl (stepEvent cs) \<lparr>shared = st, fetches = n, waiting = []\<rparr>
             [ReadSection k, LockSection k])
          (concat (map (\<lambda>i. [ReadSection i, LockSection i]) [Suc k ..< length cs]))"
    unfolding u by simp
  also have "\<dots> = \<lparr>shared = fst (runLookups st (drop k cs)),
                    fetches = n + snd (runLookups st (drop k cs)), waiting = []\<rparr>"
    unfolding caller_sections Suc.hyps(1)[OF k(2,3)] dr by (simp add: Let_def)
  finally show ?case .
qed

lemma sequential_schedule:
  "runSchedule st cs (concat (map (\<lambda>i. [ReadSection i, LockSection i]) [0 ..< length cs])) =
   \<lparr>shared = fst (runLookups st cs), fetches = snd (runLookups st cs), waiting = []\<rparr>"
  using sequential_schedule_from[of 0 cs st 0] by (simp add: runSchedule_def)

text \<open>
  C2, as the code has it. A lookup of a symbol that the table holds, read within 30 seconds
  of the last refresh, is answered from the table (latest and 0.999 times latest) with no
  upstream call and no change of the state; so is any sequence of such lookups. A lookup of
  a symbol that the table does not hold makes the upstream call every time, fresh table or
  not.

  A lookup that reads the clock 30 seconds or more after the last refresh, or on a cache
  that was never refreshed, makes exactly one upstream call, whether or not the table holds
  the symbol: when the call succeeds the lookup replaces the table and the timestamp and
  answers from the new table (zero for a symbol the new table lacks), when it fails the
  lookup returns the error and leaves the cache as it was.

  Concurrent callers run their read section and their lock section in any interleaving in
  which each caller's lock section comes after its read section; running each caller's two
  sections back to back is the sequence of lookups. When every caller reads the clock after
  the window expired, the upstream call succeeds with a table that holds the symbols asked
  for, and every re-check under the exclusive lock comes within 30 seconds of the refresh,
  then whatever the interleaving there is exactly one upstream call. So it is for callers
  that all missed under the read lock and take the exclusive lock one after another.
\<close>

theorem cache_refresh_policy:
  "(cacheValid n1 st \<and> hyperliquidOICache st s = Some oi \<longrightarrow>
      getHyperliquidOpenInterestData st n1 n2 n3 resp s =
        \<lparr>newState = st, upstreamCalls = 0, answer = Inr \<lparr>Latest = oi, Average = oi * 0.999\<rparr>\<rparr>) \<and>
   (list_all (\<lambda>c. cacheValid (readClock c) st \<and> callerSymbol c \<in> dom (hyperliquidOICache st)) cs \<longrightarrow>
      runLookups st cs = (st, 0)) \<and>
   (\<not> cacheValid (lockClock c) st \<and> upstream c = Inr T \<and>
    list_all (\<lambda>c'. lockClock c' - refreshClock c < hyperliquidOICacheTTL \<and>
                    callerSymbol c' \<in> dom T) cs \<longrightarrow>
      runLocked st (c # cs) =
        (\<lparr>hyperliquidOICache = T, hyperliquidOICacheTime = Some (refreshClock c)\<rparr>, 1)) \<and>
   (hyperliquidOICache st s = None \<longrightarrow>
      upstreamCalls (getHyperliquidOpenInterestData st n1 n2 n3 resp s) = 1) \<and>
   (cacheValid n1 st \<longleftrightarrow>
      (\<exists>t. hyperliquidOICacheTime st = Some t \<and> n1 - t < 30 * 1000000000)) \<and>
   (\<not> cacheValid m1 sta \<and> m1 \<le> m2 \<longrightarrow>
      getHyperliquidOpenInterestData sta m1 m2 m3 (Inr table) q =
        \<lparr>newState = \<lparr>hyperliquidOICache = table, hyperliquidOICacheTime = Some m3\<rparr>,
         upstreamCalls = 1,
         answer = Inr (case table q of
                         Some v \<Rightarrow> \<lparr>Latest = v, Average = v * 0.999\<rparr>
                       | None \<Rightarrow> \<lparr>Latest = 0, Average = 0\<rparr>)\<rparr> \<and>
      getHyperliquidOpenInterestData sta m1 m2 m3 (Inl err) q =
        \<lparr>newState = sta, upstreamCalls = 1, answer = Inl err\<rparr>) \<and>
   runSchedule sta callers
      (concat (map (\<lambda>i. [ReadSection i, LockSection i]) [0 ..< length callers])) =
     \<lparr>shared = fst (runLookups sta callers), fetches = snd (runLookups sta callers),
      waiting = []\<rparr> \<and>
   (callers \<noteq> [] \<and> schedule (length callers) evs \<and>
    (\<forall>d\<in>set callers. \<not> cacheValid (readClock d) sta \<and> readClock d \<le> lockClock d \<and>
       (\<exists>U. upstream d = Inr U \<and> (\<forall>d'\<in>set callers. callerSymbol d' \<in> dom U))) \<and>
    (\<forall>d\<in>set callers. \<forall>d'\<in>set callers.
       lockClock d' - refreshClock d < hyperliquidOICacheTTL) \<longrightarrow>
      fetches (runSchedule sta callers evs) = 1)"
proof -
  have v: "cacheValid n1 st \<longleftrightarrow>
      (\<exists>t. hyperliquidOICacheTime st = Some t \<and> n1 - t < 30 * 1000000000)"
    by (simp add: cacheValid_def hyperliquidOICacheTTL_def split: option.splits)
  have old: "(cacheValid n1 st \<and> hyperliquidOICache st s = Some oi \<longrightarrow>
          getHyperliquidOpenInterestData st n1 n2 n3 resp s =
            \<lparr>newState = st, upstreamCalls = 0, answer = Inr \<lparr>Latest = oi, Average = oi * 0.999\<rparr>\<rparr>) \<and>
       (list_all (\<lambda>c. cacheValid (readClock c) st \<and> callerSymbol c \<in> dom (hyperliquidOICache st)) cs \<longrightarrow>
          runLookups st cs = (st, 0)) \<and>
       (\<not> cacheValid (lockClock c) st \<and> upstream c = Inr T \<and>
        list_all (\<lambda>c'. lockClock c' - refreshClock c < hyperliquidOICacheTTL \<and>
                        callerSymbol c' \<in> dom T) cs \<longrightarrow>
          runLocked st (c # cs) =
            (\<lparr>hyperliquidOICache = T, hyperliquidOICacheTime = Some (refreshClock c)\<rparr>, 1)) \<and>
       (hyperliquidOICache st s = None \<longrightarrow>
          upstreamCalls (getHyperliquidOpenInterestData st n1 n2 n3 resp s) = 1) \<and>
       (cacheValid n1 st \<longleftrightarrow>
          (\<exists>t. hyperliquidOICacheTime st = Some t \<and> n1 - t < 30 * 1000000000))"
    using lookup_hit[of n1 st s oi n2 n3 resp, unfolded oiOf_def]
      runLookups_all_hits[of st cs] one_refresh_for_queued_callers[of c st T cs]
      absent_symbol_always_fetches[of st s n1 n2 n3 resp] v
    by blast
  have stale: "getHyperliquidOpenInterestData sta m1 m2 m3 (Inr table) q =
        \<lparr>newState = \<lparr>hyperliquidOICache = table, hyperliquidOICacheTime = Some m3\<rparr>,
         upstreamCalls = 1,
         answer = Inr (case table q of
                         Some v \<Rightarrow> \<lparr>Latest = v, Average = v * 0.999\<rparr>
                       | None \<Rightarrow> \<lparr>Latest = 0, Average = 0\<rparr>)\<rparr> \<and>
      getHyperliquidOpenInterestData sta m1 m2 m3 (Inl err) q =
        \<lparr>newState = sta, upstreamCalls = 1, answer = Inl err\<rparr>"
    if "\<not> cacheValid m1 sta" "m1 \<le> m2"
    using lookup_stale[OF that] by (simp add: oiOf_def zeroOI_def split: option.splits)
  have conc: "fetches (runSchedule sta callers evs) = 1"
    if h: "callers \<noteq> []" "schedule (length callers) evs"
      "\<forall>d\<in>set callers. \<not> cacheValid (readClock d) sta \<and> readClock d \<le> lockClock d \<and>
         (\<exists>U. upstream d = Inr U \<and> (\<forall>d'\<in>set callers. callerSymbol d' \<in> dom U))"
      "\<forall>d\<in>set callers. \<forall>d'\<in>set callers.
         lockClock d' - refreshClock d < hyperliquidOICacheTTL"
  proof (rule one_fetch_for_concurrent_callers[OF h(2) h(1) _ _ h(4)])
    show "\<forall>c\<in>set callers. \<not> cacheValid (readClock c) sta \<and> \<not> cacheValid (lockClock c) sta"
      using h(3) stale_later by blast
    show "\<forall>c\<in>set callers. \<exists>T. upstream c = Inr T \<and> (\<forall>c'\<in>set callers. callerSymbol c' \<in> dom T)"
      using h(3) by blast
  qed
  show ?thesis using old stale sequential_schedule[of sta callers] conc by blast
qed

text \<open>
  C2, as stated, fails: after the refresh at time 0 that stored the table of BTCUSDT and
  ETHUSDT, the lookups of ETHUSDT at 1 s and of DOGEUSDT at 2 s lie in the freshness
  window, and the second one makes an upstream call. After the window expired, two
  concurrent callers of which the second asks for DOGEUSDT, which the refreshed table
  lacks, refresh twice; and two concurrent callers whose upstream calls fail make two
  upstream calls and refresh nothing.
\<close>

theorem absent_symbol_refetches_within_window:
  "runLookups emptyCache [exCaller ''BTCUSDT'' 0] =
     (\<lparr>hyperliquidOICache = exTable, hyperliquidOICacheTime = Some 0\<rparr>, 1) \<and>
   cacheValid 2000000000 \<lparr>hyperliquidOICache = exTable, hyperliquidOICacheTime = Some 0\<rparr> \<and>
   snd (runLookups \<lparr>hyperliquidOICache = exTable, hyperliquidOICacheTime = Some 0\<rparr>
          [exCaller ''ETHUSDT'' 1000000000, exCaller ''DOGEUSDT'' 2000000000]) = 1 \<and>
   runSchedule \<lparr>hyperliquidOICache = exTable, hyperliquidOICacheTime = Some 0\<rparr>
      (exQueue (Inr exTable) ''DOGEUSDT'')
      [ReadSection 0, ReadSection 1, LockSection 0, LockSection 1] =
     \<lparr>shared = \<lparr>hyperliquidOICache = exTable, hyperliquidOICacheTime = Some 36000000000\<rparr>,
      fetches = 2, waiting = []\<rparr> \<and>
   runSchedule \<lparr>hyperliquidOICache = exTable, hyperliquidOICacheTime = Some 0\<rparr>
      (exQueue (Inl ''down'') ''ETHUSDT'')
      [ReadSection 0, ReadSection 1, LockSection 0, LockSection 1] =
     \<lparr>shared = \<lparr>hyperliquidOICache = exTable, hyperliquidOICacheTime = Some 0\<rparr>,
      fetches = 2, waiting = []\<rparr>"
  by (simp add: exCaller_def emptyCache_def getHyperliquidOpenInterestData_def lockedSection_def
      cachedOI_def cacheValid_def hyperliquidOICacheTTL_def exTable_def Let_def
      runSchedule_def stepEvent_def exQueue_def)

theorem cache_refresh_policy_witness:
  "getHyperliquidOpenInterestData
      \<lparr>hyperliquidOICache = exTable, hyperliquidOICacheTime = Some 0\<rparr>
      1000000000 1000000000 1000000000 (Inl ''down'') ''ETHUSDT'' =
     \<lparr>newState = \<lparr>hyperliquidOICache = exTable, hyperliquidOICacheTime = Some 0\<rparr>,
      upstreamCalls = 0, answer = Inr \<lparr>Latest = 50, Average = 50 * 0.999\<rparr>\<rparr> \<and>
   runLookups \<lparr>hyperliquidOICache = exTable, hyperliquidOICacheTime = Some 0\<rparr>
      [exCaller ''BTCUSDT'' 1000000000, exCaller ''ETHUSDT'' 2000000000] =
     (\<lparr>hyperliquidOICache = exTable, hyperliquidOICacheTime = Some 0\<rparr>, 0) \<and>
   runLocked \<lparr>hyperliquidOICache = exTable, hyperliquidOICacheTime = Some 0\<rparr>
      [exCaller ''BTCUSDT'' 31000000000, exCaller ''ETHUSDT'' 32000000000,
       exCaller ''BTCUSDT'' 33000000000] =
     (\<lparr>hyperliquidOICache = exTable, hyperliquidOICacheTime = Some 31000000000\<rparr>, 1) \<and>
   upstreamCalls (getHyperliquidOpenInterestData
      \<lparr>hyperliquidOICache = exTable, hyperliquidOICacheTime = Some 0\<rparr>
      1000000000 1000000000 1000000000 (Inr exTable) ''DOGEUSDT'') = 1 \<and>
   getHyperliquidOpenInterestData
      \<lparr>hyperliquidOICache = exTable, hyperliquidOICacheTime = Some 0\<rparr>
      31000000000 31000000000 32000000000 (Inr [''BTCUSDT'' \<mapsto> 101]) ''BTCUSDT'' =
     \<lparr>newState = \<lparr>hyperliquidOICache = [''BTCUSDT'' \<mapsto> 101],
                   hyperliquidOICacheTime = Some 32000000000\<rparr>,
      upstreamCalls = 1, answer = Inr \<lparr>Latest = 101, Average = 101 * 0.999\<rparr>\<rparr> \<and>
   getHyperliquidOpenInterestData
      \<lparr>hyperliquidOICache = exTable, hyperliquidOICacheTime = Some 0\<rparr>
      31000000000 31000000000 32000000000 (Inl ''down'') ''BTCUSDT'' =
     \<lparr>newState = \<lparr>hyperliquidOICache = exTable, hyperliquidOICacheTime = Some 0\<rparr>,
      upstreamCalls = 1, answer = Inl ''down''\<rparr> \<and>
   fetches (runSchedule \<lparr>hyperliquidOICache = exTable, hyperliquidOICacheTime = Some 0\<rparr>
      (exQueue (Inr exTable) ''ETHUSDT'')
      [ReadSection 0, ReadSection 1, LockSection 0, LockSection 1]) = 1"
proof -
  let ?st = "\<lparr>hyperliquidOICache = exTable, hyperliquidOICacheTime = Some 0\<rparr>"
  have v: "cacheValid 1000000000 ?st" "cacheValid 2000000000 ?st"
    "\<not> cacheValid 31000000000 ?st"
    by (simp_all add: cacheValid_def hyperliquidOICacheTTL_def)
  have t: "exTable ''ETHUSDT'' = Some 50" "exTable ''BTCUSDT'' = Some 100"
    "exTable ''DOGEUSDT'' = None"
    by (simp_all add: exTable_def)
  have a: "getHyperliquidOpenInterestData ?st 1000000000 1000000000 1000000000 (Inl ''down'')
             ''ETHUSDT'' =
           \<lparr>newState = ?st, upstreamCalls = 0, answer = Inr \<lparr>Latest = 50, Average = 50 * 0.999\<rparr>\<rparr>"
    using cache_refresh_policy[THEN conjunct1, of 1000000000 ?st "''ETHUSDT''" 50] v t by simp
  have b: "runLookups ?st [exCaller ''BTCUSDT'' 1000000000, exCaller ''ETHUSDT'' 2000000000] =
           (?st, 0)"
    using cache_refresh_policy[THEN conjunct2, THEN conjunct1, of ?st
        "[exCaller ''BTCUSDT'' 1000000000, exCaller ''ETHUSDT'' 2000000000]"] v t
    by (simp add: exCaller_def dom_def)
  have c: "runLocked ?st [exCaller ''BTCUSDT'' 31000000000, exCaller ''ETHUSDT'' 32000000000,
       exCaller ''BTCUSDT'' 33000000000] =
     (\<lparr>hyperliquidOICache = exTable, hyperliquidOICacheTime = Some 31000000000\<rparr>, 1)"
    using cache_refresh_policy[THEN conjunct2, THEN conjunct2, THEN conjunct1,
        of "exCaller ''BTCUSDT'' 31000000000" ?st exTable
        "[exCaller ''ETHUSDT'' 32000000000, exCaller ''BTCUSDT'' 33000000000]"] v t
    by (simp add: exCaller_def dom_def hyperliquidOICacheTTL_def)
  have d: "upstreamCalls (getHyperliquidOpenInterestData ?st 1000000000 1000000000 1000000000
             (Inr exTable) ''DOGEUSDT'') = 1"
    using cache_refresh_policy[THEN conjunct2, THEN conjunct2, THEN conjunct2, THEN conjunct1,
        of ?st "''DOGEUSDT''"] t by simp
  note stale = cache_refresh_policy[
      where sta = ?st and ?m1.0 = 31000000000 and ?m2.0 = 31000000000
        and ?m3.0 = 32000000000 and q = "''BTCUSDT''" and table = "[''BTCUSDT'' \<mapsto> 101]"
        and err = "''down''",
      THEN conjunct2, THEN conjunct2, THEN conjunct2,
      THEN conjunct2, THEN conjunct2, THEN conjunct1]
  have e: "getHyperliquidOpenInterestData ?st 31000000000 31000000000 32000000000
             (Inr [''BTCUSDT'' \<mapsto> 101]) ''BTCUSDT'' =
     \<lparr>newState = \<lparr>hyperliquidOICache = [''BTCUSDT'' \<mapsto> 101],
                   hyperliquidOICacheTime = Some 32000000000\<rparr>,
      upstreamCalls = 1, answer = Inr \<lparr>Latest = 101, Average = 101 * 0.999\<rparr>\<rparr>"
    using stale v(3) by simp
  have f: "getHyperliquidOpenInterestData ?st 31000000000 31000000000 32000000000
             (Inl ''down'') ''BTCUSDT'' =
     \<lparr>newState = ?st, upstreamCalls = 1, answer = Inl ''down''\<rparr>"
    using stale v(3) by simp
  have g: "fetches (runSchedule ?st (exQueue (Inr exTable) ''ETHUSDT'')
      [ReadSection 0, ReadSection 1, LockSection 0, LockSection 1]) = 1"
    using cache_refresh_policy[
      where sta = ?st and callers = "exQueue (Inr exTable) ''ETHUSDT''"
        and evs = "[ReadSection 0, ReadSection 1, LockSection 0, LockSection 1]",
      THEN conjunct2, THEN conjunct2, THEN conjunct2,
      THEN conjunct2, THEN conjunct2, THEN conjunct2, THEN conjunct2] t
    by (simp add: exQueue_def schedule_def cacheValid_def hyperliquidOICacheTTL_def dom_def)
  show ?thesis using a b c d e f g by (intro conjI)
qed

end
